theory Spec2Isabelle
  imports Complex_Main "HOL-Library.Multiset"
begin

section \<open>Values of the wildfire report pipeline\<close>

text \<open>
  The program (\<^verbatim>\<open>src/main.py\<close>) works on pandas data frames whose cells are Python
  integers, floats and strings. A float is modelled by the number it denotes: a real
  for a finite float, and the three special values. Comparisons, clipping and
  formatting of a float are exact functions of that number. The rounding of float
  arithmetic is modelled where a property depends on it, in \<^verbatim>\<open>generate_bbox\<close>; the
  distance of \<^verbatim>\<open>haversine_np\<close> is read exactly. The reference point and the radius are
  finite floats. Boolean cells and the sign of zero are left out.
\<close>

datatype pyfloat = Fin real | PInf | NInf | NaN

datatype cell = CInt int | CFloat pyfloat | CStr string

datatype py_error = ValueError | OverflowError | TypeError

text \<open>\<^verbatim>\<open>a < b\<close> and \<^verbatim>\<open>a >= b\<close> on floats: every comparison with NaN is false.\<close>

fun fl_lt :: "pyfloat \<Rightarrow> pyfloat \<Rightarrow> bool" where
  "fl_lt NaN b = False"
| "fl_lt a NaN = False"
| "fl_lt (Fin x) (Fin y) = (x < y)"
| "fl_lt a NInf = False"
| "fl_lt NInf b = True"
| "fl_lt PInf b = False"
| "fl_lt a PInf = True"

fun fl_ge :: "pyfloat \<Rightarrow> pyfloat \<Rightarrow> bool" where
  "fl_ge NaN b = False"
| "fl_ge a NaN = False"
| "fl_ge a b = (\<not> fl_lt a b)"

definition fl_le :: "pyfloat \<Rightarrow> pyfloat \<Rightarrow> bool" where
  "fl_le a b = fl_ge b a"

definition fl_isnan :: "pyfloat \<Rightarrow> bool" where
  "fl_isnan x = (x = NaN)"

text \<open>\<^verbatim>\<open>pd.isna(x)\<close> on a cell: only the float NaN is missing.\<close>

fun isna :: "cell \<Rightarrow> bool" where
  "isna (CFloat NaN) = True"
| "isna c = False"

text \<open>\<^verbatim>\<open>Series.fillna\<close> with a series and with a scalar, and \<^verbatim>\<open>Series.clip(lo, hi)\<close>,
  which leaves NaN in place.\<close>

definition fillna :: "pyfloat \<Rightarrow> pyfloat \<Rightarrow> pyfloat" where
  "fillna x v = (if fl_isnan x then v else x)"

definition clip :: "pyfloat \<Rightarrow> pyfloat \<Rightarrow> pyfloat \<Rightarrow> pyfloat" where
  "clip lo hi x =
     (if fl_isnan x then NaN else if fl_lt x lo then lo else if fl_lt hi x then hi else x)"

subsection \<open>Strings\<close>

text \<open>A string is the list of its characters. The decimal digits of an integer:\<close>

definition digit_char :: "nat \<Rightarrow> char" where
  "digit_char d = ''0123456789'' ! d"

function str_nat :: "nat \<Rightarrow> string" where
  "str_nat n = (if n < 10 then [digit_char n] else str_nat (n div 10) @ [digit_char (n mod 10)])"
  by pat_completeness auto
termination
  by (relation "measure id") auto

definition str_int :: "int \<Rightarrow> string" where
  "str_int i = (if i < 0 then CHR ''-'' # str_nat (nat (- i)) else str_nat (nat i))"

text \<open>The format \<^verbatim>\<open>f"{x:.0f}"\<close>: the nearest integer, a tie going to the even one.\<close>

definition round_half_even :: "real \<Rightarrow> int" where
  "round_half_even x =
     (let f = \<lfloor>x\<rfloor>; d = x - of_int f
      in if d < 1 / 2 then f else if 1 / 2 < d then f + 1 else if even f then f else f + 1)"

fun format_0f :: "pyfloat \<Rightarrow> string" where
  "format_0f (Fin x) = (if x < 0 then ''-'' else '''') @ str_nat (nat \<bar>round_half_even x\<bar>)"
| "format_0f PInf = ''inf''"
| "format_0f NInf = ''-inf''"
| "format_0f NaN = ''nan''"

text \<open>The format \<^verbatim>\<open>f"{n:02d}"\<close>.\<close>

definition format_02d :: "int \<Rightarrow> string" where
  "format_02d n = (if 0 \<le> n \<and> n < 10 then CHR ''0'' # str_int n else str_int n)"


subsection \<open>Library functions taken as parameters\<close>

text \<open>
  The string methods, the conversions between strings and numbers and the sorting
  routine belong to Python, pandas and numpy, not to this program. They are parameters
  of the model:
  \<^item> \<open>float_str\<close>: \<^verbatim>\<open>str(x)\<close> of a finite float;
  \<^item> \<open>str_strip\<close>, \<open>str_lower\<close>: \<^verbatim>\<open>str.strip()\<close>, which removes the whitespace at both ends,
    and \<^verbatim>\<open>str.lower()\<close>;
  \<^item> \<open>astype_str_keeps_na\<close>: whether \<^verbatim>\<open>Series.astype(str)\<close> leaves a missing value
    missing, as pandas does from version 3 on, or turns it into the string \<^verbatim>\<open>nan\<close>, as
    pandas does before version 3;
  \<^item> \<open>to_numeric_str\<close>: \<^verbatim>\<open>pd.to_numeric(s, errors='coerce')\<close> on one string, NaN when it
    does not parse;
  \<^item> \<open>py_float\<close>, \<open>py_int\<close>: \<^verbatim>\<open>float(s)\<close> and \<^verbatim>\<open>int(s)\<close>, \<open>None\<close> when they raise
    \<^verbatim>\<open>ValueError\<close>;
  \<^item> \<open>argsort\<close>: \<^verbatim>\<open>ndarray.argsort(kind='quicksort')\<close> on floats that are not NaN, the
    sorting routine that \<^verbatim>\<open>sort_values\<close> calls when no \<^verbatim>\<open>kind\<close> is given.
\<close>

record pylib =
  float_str :: "real \<Rightarrow> string"
  str_strip :: "string \<Rightarrow> string"
  str_lower :: "string \<Rightarrow> string"
  astype_str_keeps_na :: bool
  to_numeric_str :: "string \<Rightarrow> pyfloat"
  py_float :: "string \<Rightarrow> pyfloat option"
  py_int :: "string \<Rightarrow> int option"
  argsort :: "pyfloat list \<Rightarrow> nat list"

text \<open>\<^verbatim>\<open>str(x)\<close>, \<^verbatim>\<open>Series.astype(str)\<close> (\<open>None\<close> is a value that stays missing),
  \<^verbatim>\<open>pd.to_numeric(..., errors='coerce')\<close>, \<^verbatim>\<open>Series.astype(float)\<close> and \<^verbatim>\<open>int(x)\<close>, on
  one cell.\<close>

fun astype_str :: "pylib \<Rightarrow> cell \<Rightarrow> string" where
  "astype_str L (CInt i) = str_int i"
| "astype_str L (CFloat (Fin x)) = float_str L x"
| "astype_str L (CFloat PInf) = ''inf''"
| "astype_str L (CFloat NInf) = ''-inf''"
| "astype_str L (CFloat NaN) = ''nan''"
| "astype_str L (CStr s) = s"

definition series_astype_str :: "pylib \<Rightarrow> cell \<Rightarrow> string option" where
  "series_astype_str L c =
     (if isna c \<and> astype_str_keeps_na L then None else Some (astype_str L c))"

fun to_numeric :: "pylib \<Rightarrow> cell \<Rightarrow> pyfloat" where
  "to_numeric L (CInt i) = Fin (of_int i)"
| "to_numeric L (CFloat x) = x"
| "to_numeric L (CStr s) = to_numeric_str L s"

fun astype_float :: "pylib \<Rightarrow> cell \<Rightarrow> py_error + pyfloat" where
  "astype_float L (CInt i) = Inr (Fin (of_int i))"
| "astype_float L (CFloat x) = Inr x"
| "astype_float L (CStr s) = (case py_float L s of None \<Rightarrow> Inl ValueError | Some x \<Rightarrow> Inr x)"

definition trunc :: "real \<Rightarrow> int" where
  "trunc x = (if 0 \<le> x then \<lfloor>x\<rfloor> else \<lceil>x\<rceil>)"

fun int_of_cell :: "pylib \<Rightarrow> cell \<Rightarrow> py_error + int" where
  "int_of_cell L (CInt i) = Inr i"
| "int_of_cell L (CFloat (Fin x)) = Inr (trunc x)"
| "int_of_cell L (CFloat NaN) = Inl ValueError"
| "int_of_cell L (CFloat x) = Inl OverflowError"
| "int_of_cell L (CStr s) = (case py_int L s of None \<Rightarrow> Inl ValueError | Some i \<Rightarrow> Inr i)"

text \<open>Applying a function that may raise to every element: the first exception ends it.\<close>

fun map_err :: "('a \<Rightarrow> py_error + 'b) \<Rightarrow> 'a list \<Rightarrow> py_error + 'b list" where
  "map_err f [] = Inr []"
| "map_err f (x # xs) =
     (case f x of Inl e \<Rightarrow> Inl e
      | Inr y \<Rightarrow> (case map_err f xs of Inl e \<Rightarrow> Inl e | Inr ys \<Rightarrow> Inr (y # ys)))"

subsection \<open>Data frames\<close>

text \<open>A data frame has its column names in order, its row labels, and the values of
  each column. \<open>frame\<close> of a name that is not a column is never read.\<close>

record dataframe =
  columns :: "string list"
  index :: "nat list"
  frame :: "string \<Rightarrow> cell list"

definition empty_frame :: dataframe where
  "empty_frame = \<lparr>columns = [], index = [], frame = (\<lambda>c. [])\<rparr>"

definition nrows :: "dataframe \<Rightarrow> nat" where
  "nrows df = length (index df)"

text \<open>\<^verbatim>\<open>df.empty\<close>: no row or no column.\<close>

definition is_empty :: "dataframe \<Rightarrow> bool" where
  "is_empty df = (columns df = [] \<or> index df = [])"

text \<open>\<^verbatim>\<open>df[col] = values\<close> replaces the column or appends a new one; \<^verbatim>\<open>df[col] = v\<close>
  with a scalar fills the column with it.\<close>

definition set_column :: "dataframe \<Rightarrow> string \<Rightarrow> cell list \<Rightarrow> dataframe" where
  "set_column df c vs =
     df\<lparr>columns := (if c \<in> set (columns df) then columns df else columns df @ [c]),
        frame := (frame df)(c := vs)\<rparr>"

definition set_scalar :: "dataframe \<Rightarrow> string \<Rightarrow> cell \<Rightarrow> dataframe" where
  "set_scalar df c v = set_column df c (replicate (nrows df) v)"

text \<open>\<^verbatim>\<open>pd.concat(dfs, ignore_index=True)\<close>: the columns in order of first appearance,
  the rows one frame after the other, NaN where a frame lacks a column, and the row
  labels renumbered from 0.\<close>

definition union_columns :: "string list \<Rightarrow> string list" where
  "union_columns cs = foldl (\<lambda>acc c. if c \<in> set acc then acc else acc @ [c]) [] cs"

definition column_or_nan :: "dataframe \<Rightarrow> string \<Rightarrow> cell list" where
  "column_or_nan d c =
     (if c \<in> set (columns d) then frame d c else replicate (nrows d) (CFloat NaN))"

definition concat_frames :: "dataframe list \<Rightarrow> dataframe" where
  "concat_frames dfs =
     \<lparr>columns = union_columns (concat (map columns dfs)),
      index = [0 ..< sum_list (map nrows dfs)],
      frame = (\<lambda>c. concat (map (\<lambda>d. column_or_nan d c) dfs))\<rparr>"

text \<open>\<^verbatim>\<open>df[mask]\<close> keeps the rows where the mask holds, with their labels;
  \<^verbatim>\<open>df.take(indexer)\<close> reorders the rows; \<^verbatim>\<open>reset_index(drop=True)\<close> renumbers the
  labels. Assigning a series to a column aligns it on the labels of the frame.\<close>

definition select :: "bool list \<Rightarrow> 'a list \<Rightarrow> 'a list" where
  "select keep xs = map snd (filter fst (zip keep xs))"

definition boolean_index :: "dataframe \<Rightarrow> bool list \<Rightarrow> dataframe" where
  "boolean_index df keep =
     df\<lparr>index := select keep (index df), frame := (\<lambda>c. select keep (frame df c))\<rparr>"

definition take_rows :: "dataframe \<Rightarrow> nat list \<Rightarrow> dataframe" where
  "take_rows df indexer =
     df\<lparr>index := map ((!) (index df)) indexer, frame := (\<lambda>c. map ((!) (frame df c)) indexer)\<rparr>"

definition reset_index :: "dataframe \<Rightarrow> dataframe" where
  "reset_index df = df\<lparr>index := [0 ..< nrows df]\<rparr>"

definition align :: "cell list \<Rightarrow> nat list \<Rightarrow> cell list" where
  "align s labels = map (\<lambda>i. if i < length s then s ! i else CFloat NaN) labels"

text \<open>\<^verbatim>\<open>df.sort_values(by=col)\<close> on a float column, as pandas does it (\<^verbatim>\<open>nargsort\<close>,
  ascending, \<^verbatim>\<open>na_position='last'\<close>): the values that are not NaN are sorted by the
  library's \<open>argsort\<close>, and the rows with NaN follow in their order.\<close>

fun float_of_cell :: "cell \<Rightarrow> pyfloat" where
  "float_of_cell (CFloat x) = x"
| "float_of_cell (CInt i) = Fin (of_int i)"
| "float_of_cell (CStr s) = NaN"

definition nargsort :: "pylib \<Rightarrow> pyfloat list \<Rightarrow> nat list" where
  "nargsort L items =
     (let idx = [0 ..< length items];
          is_nan = map fl_isnan items;
          non_nans = select (map Not is_nan) items;
          non_nan_idx = select (map Not is_nan) idx;
          nan_idx = select is_nan idx
      in map ((!) non_nan_idx) (argsort L non_nans) @ nan_idx)"

definition sort_values :: "pylib \<Rightarrow> dataframe \<Rightarrow> string \<Rightarrow> dataframe" where
  "sort_values L df by = take_rows df (nargsort L (map float_of_cell (frame df by)))"


section \<open>The program\<close>

subsection \<open>\<^verbatim>\<open>generate_bbox\<close>\<close>

text \<open>
  Python computes lines 15 to 18 in IEEE double precision: every operation gives the
  double nearest to the exact result, a tie going to the even significand.
  \<open>double_round\<close> is that rounding on the normal and subnormal range (53 bits, least
  exponent -1022; a result beyond the largest double, which Python turns into \<^verbatim>\<open>inf\<close>,
  is not modelled). \<^verbatim>\<open>math.radians\<close> multiplies by the double \<^verbatim>\<open>pi / 180\<close>, and
  \<^verbatim>\<open>math.cos\<close> is taken as correctly rounded. The literals \<^verbatim>\<open>89.9\<close> and \<^verbatim>\<open>0.0001\<close> are
  the doubles nearest to them.
\<close>

definition double_round :: "real \<Rightarrow> real" where
  "double_round x =
     (if x = 0 then 0
      else let e = max \<lfloor>log 2 \<bar>x\<bar>\<rfloor> (- 1022);
               u = 2 powr (of_int e - 52)
           in of_int (round_half_even (x / u)) * u)"

definition radians_fp :: "real \<Rightarrow> real" where
  "radians_fp x = double_round (x * double_round (double_round pi / 180))"

definition delta_lat_fp :: "real \<Rightarrow> real" where
  "delta_lat_fp radius_km = double_round (radius_km / 111)"

definition cos_lat_fp :: "real \<Rightarrow> real" where
  "cos_lat_fp lat =
     (if \<bar>lat\<bar> < double_round 89.9 then double_round (cos (radians_fp lat))
      else double_round 0.0001)"

definition delta_lon_fp :: "real \<Rightarrow> real \<Rightarrow> real" where
  "delta_lon_fp lat radius_km = double_round (radius_km / double_round (111 * cos_lat_fp lat))"

definition bbox_bounds_fp :: "real \<Rightarrow> real \<Rightarrow> real \<Rightarrow> real \<times> real \<times> real \<times> real" where
  "bbox_bounds_fp lat lon radius_km =
     (double_round (lon - delta_lon_fp lat radius_km),
      double_round (lat - delta_lat_fp radius_km),
      double_round (lon + delta_lon_fp lat radius_km),
      double_round (lat + delta_lat_fp radius_km))"

text \<open>The four numbers of the box, in the order of the returned string: minimum
  longitude, minimum latitude, maximum longitude, maximum latitude. The function returns
  them printed and joined by commas.\<close>

definition generate_bbox :: "pylib \<Rightarrow> real \<Rightarrow> real \<Rightarrow> real \<Rightarrow> string" where
  "generate_bbox L lat lon radius_km =
     (case bbox_bounds_fp lat lon radius_km of
        (a, b, c, d) \<Rightarrow>
          float_str L a @ '','' @ float_str L b @ '','' @ float_str L c @ '','' @ float_str L d)"

subsection \<open>\<^verbatim>\<open>haversine_np\<close>\<close>

text \<open>\<^verbatim>\<open>np.radians\<close>, read exactly; \<^verbatim>\<open>np.sqrt\<close> of a negative number is NaN;
  \<^verbatim>\<open>np.arctan2\<close> is the angle of the point \<open>(x, y)\<close>.\<close>

definition radians :: "real \<Rightarrow> real" where
  "radians x = x * pi / 180"

definition arctan2 :: "real \<Rightarrow> real \<Rightarrow> real" where
  "arctan2 y x =
     (if 0 < x then arctan (y / x)
      else if x < 0 then (if 0 \<le> y then arctan (y / x) + pi else arctan (y / x) - pi)
      else if 0 < y then pi / 2 else if y < 0 then - pi / 2 else 0)"

definition haversine :: "real \<Rightarrow> real \<Rightarrow> real \<Rightarrow> real \<Rightarrow> pyfloat" where
  "haversine lat0 lon0 lat lon =
     (let R = 6371;
          lat0_rad = radians lat0;
          lon0_rad = radians lon0;
          lats_rad = radians lat;
          lons_rad = radians lon;
          dlat = lats_rad - lat0_rad;
          dlon = lons_rad - lon0_rad;
          a = (sin (dlat / 2))\<^sup>2 + cos lat0_rad * cos lats_rad * (sin (dlon / 2))\<^sup>2
      in if a < 0 \<or> 1 - a < 0 then NaN else Fin (R * (2 * arctan2 (sqrt a) (sqrt (1 - a)))))"

text \<open>On the special values: the sine of an infinite angle is NaN, and NaN goes through
  every operation, so the distance is NaN as soon as a coordinate is not finite.\<close>

fun haversine_fl :: "real \<Rightarrow> real \<Rightarrow> pyfloat \<Rightarrow> pyfloat \<Rightarrow> pyfloat" where
  "haversine_fl lat0 lon0 (Fin lat) (Fin lon) = haversine lat0 lon0 lat lon"
| "haversine_fl lat0 lon0 a b = NaN"

definition haversine_np ::
  "pylib \<Rightarrow> real \<Rightarrow> real \<Rightarrow> cell list \<Rightarrow> cell list \<Rightarrow> py_error + pyfloat list" where
  "haversine_np L lat0 lon0 lats lons =
     (case map_err (astype_float L) lats of
        Inl e \<Rightarrow> Inl e
      | Inr lats_f \<Rightarrow>
          (case map_err (astype_float L) lons of
             Inl e \<Rightarrow> Inl e
           | Inr lons_f \<Rightarrow> Inr (map2 (haversine_fl lat0 lon0) lats_f lons_f)))"

subsection \<open>\<^verbatim>\<open>check_fires\<close>: data collection\<close>

text \<open>The feed is a function from the request (sensor, box, days) to what the request
  gives: \<open>Failed\<close> when \<^verbatim>\<open>requests.get\<close>, \<^verbatim>\<open>raise_for_status\<close> or \<^verbatim>\<open>read_csv\<close> raises,
  the parsed frame otherwise. What the program prints is a list of events; the
  centring of the table cells is left to the renderer.\<close>

record request =
  req_sat :: string
  req_bbox :: string
  req_days :: int

datatype response = Failed | Rows dataframe

datatype event =
    ErrorAccessing string
  | NoDataReturned
  | NoReliableFires
  | FireAlert nat real real real int
  | TableHeader "string list"
  | TableDivider
  | TableRow "cell list"

record outcome =
  printed :: "event list"
  returned :: dataframe

fun collect ::
  "pylib \<Rightarrow> (request \<Rightarrow> response) \<Rightarrow> real \<Rightarrow> real \<Rightarrow> string list \<Rightarrow> real \<Rightarrow> int
     \<Rightarrow> event list \<times> dataframe list" where
  "collect L fetch lat lon [] radius_km days = ([], [])"
| "collect L fetch lat lon (sat # sats) radius_km days =
     (let bbox = generate_bbox L lat lon radius_km;
          url = \<lparr>req_sat = sat, req_bbox = bbox, req_days = days\<rparr>;
          (evs, dfs) = collect L fetch lat lon sats radius_km days
      in case fetch url of
           Failed \<Rightarrow> (ErrorAccessing sat # evs, dfs)
         | Rows df \<Rightarrow>
             if is_empty df then (evs, dfs)
             else (evs, set_scalar df ''satellite'' (CStr sat) # dfs))"

subsection \<open>\<^verbatim>\<open>check_fires\<close>: processing\<close>

definition required_columns :: "string list" where
  "required_columns = [''latitude'', ''longitude'', ''frp'', ''confidence'', ''acq_time'', ''acq_date'']"

definition ensure_column :: "string \<Rightarrow> dataframe \<Rightarrow> dataframe" where
  "ensure_column col df = (if col \<in> set (columns df) then df else set_scalar df col (CFloat NaN))"

definition ensure_columns :: "dataframe \<Rightarrow> dataframe" where
  "ensure_columns df = fold ensure_column required_columns df"

definition mapping :: "(string \<times> pyfloat) list" where
  "mapping = [(''low'', Fin 30), (''nominal'', Fin 60), (''high'', Fin 90)]"

text \<open>Line 67: the strings that are compared with the keys of the mapping. A value
  that \<^verbatim>\<open>astype(str)\<close> leaves missing stays missing through \<^verbatim>\<open>.str.strip()\<close> and
  \<^verbatim>\<open>.str.lower()\<close>.\<close>

definition conf_raw :: "pylib \<Rightarrow> cell list \<Rightarrow> string option list" where
  "conf_raw L confidence =
     map (\<lambda>c. map_option (\<lambda>s. str_lower L (str_strip L s)) (series_astype_str L c)) confidence"

text \<open>Lines 66 to 73, on the whole column. A missing value is not among the keys.\<close>

definition normalize_confidence :: "pylib \<Rightarrow> cell list \<Rightarrow> pyfloat list" where
  "normalize_confidence L confidence =
     (let mask_map = map (\<lambda>s. case s of None \<Rightarrow> False | Some t \<Rightarrow> t \<in> set (map fst mapping))
                       (conf_raw L confidence);
          confidence_pct0 = replicate (length confidence) NaN;
          mapped = map (\<lambda>s. case s of None \<Rightarrow> NaN
                               | Some t \<Rightarrow> (case map_of mapping t of Some v \<Rightarrow> v | None \<Rightarrow> NaN))
                     (conf_raw L confidence);
          confidence_pct1 = map (\<lambda>(m, old, new). if m then new else old)
                              (zip mask_map (zip confidence_pct0 mapped));
          numeric_conf = map (to_numeric L) confidence;
          confidence_pct2 = map (clip (Fin 0) (Fin 100)) (map2 fillna confidence_pct1 numeric_conf)
      in map (\<lambda>x. fillna x (Fin 0)) confidence_pct2)"

text \<open>\<^verbatim>\<open>np.select([frp < 30, frp < 100], ['Low', 'Moderate'], default='High')\<close>.\<close>

definition intensity_of :: "pyfloat \<Rightarrow> string" where
  "intensity_of frp =
     (if fl_lt frp (Fin 30) then ''Low'' else if fl_lt frp (Fin 100) then ''Moderate'' else ''High'')"

definition time_of :: "pylib \<Rightarrow> cell \<Rightarrow> py_error + string" where
  "time_of L x =
     (if \<not> isna x
      then (case int_of_cell L x of
              Inl e \<Rightarrow> Inl e
            | Inr n \<Rightarrow> Inr (format_02d (n div 100) @ '':'' @ format_02d (n mod 100)))
      else Inr ''00:00'')"

text \<open>Lines 59 to 89: the frame with its derived columns, and the numeric series
  \<^verbatim>\<open>confidence_pct\<close>, which is not a column of the frame.\<close>

definition process ::
  "pylib \<Rightarrow> real \<Rightarrow> real \<Rightarrow> dataframe \<Rightarrow> py_error + dataframe \<times> pyfloat list" where
  "process L lat lon df0 =
     (let df1 = ensure_columns df0;
          frp = map (\<lambda>c. fillna (to_numeric L c) (Fin 0)) (frame df1 ''frp'');
          df2 = set_column df1 ''frp'' (map CFloat frp);
          confidence_pct = normalize_confidence L (frame df2 ''confidence'');
          df3 = set_column df2 ''confidence_percent''
                  (map (\<lambda>x. CStr (format_0f x @ ''%'')) confidence_pct);
          df4 = set_column df3 ''intensity'' (map (\<lambda>x. CStr (intensity_of x)) frp)
      in case haversine_np L lat lon (frame df4 ''latitude'') (frame df4 ''longitude'') of
           Inl e \<Rightarrow> Inl e
         | Inr distance \<Rightarrow>
             (let df5 = set_column df4 ''distance_km'' (map CFloat distance)
              in case map_err (time_of L) (frame df5 ''acq_time'') of
                   Inl e \<Rightarrow> Inl e
                 | Inr time_col \<Rightarrow>
                     (let df6 = set_column df5 ''time'' (map CStr time_col);
                          df7 = set_column df6 ''date'' (frame df6 ''acq_date'')
                      in Inr (df7, confidence_pct))))"

subsection \<open>\<^verbatim>\<open>check_fires\<close>: the report\<close>

definition classify_risk :: "pyfloat \<Rightarrow> string" where
  "classify_risk conf =
     (if fl_ge conf (Fin 70) then ''High'' else if fl_ge conf (Fin 50) then ''Medium'' else ''Low'')"

text \<open>Line 92, and lines 106 and 107 up to \<^verbatim>\<open>sort_values\<close>: the frame keeps the labels of
  the rows in \<^verbatim>\<open>confidence_pct\<close> until \<^verbatim>\<open>reset_index\<close>.\<close>

definition select_reliable :: "dataframe \<Rightarrow> pyfloat list \<Rightarrow> dataframe" where
  "select_reliable df confidence_pct =
     boolean_index df (map (\<lambda>x. fl_ge x (Fin 40)) confidence_pct)"

definition rank :: "pylib \<Rightarrow> dataframe \<Rightarrow> pyfloat list \<Rightarrow> dataframe" where
  "rank L df confidence_pct =
     sort_values L
       (set_column df ''fire_risk''
          (align (map (\<lambda>x. CStr (classify_risk x)) confidence_pct) (index df)))
       ''distance_km''"

definition report_columns :: "string list" where
  "report_columns = [''satellite'', ''latitude'', ''longitude'', ''date'', ''time'',
     ''frp'', ''intensity'', ''confidence_percent'', ''fire_risk'', ''distance_km'']"

text \<open>Line 113: the width of each printed column, the longest of its cells as strings
  and of its name. \<^verbatim>\<open>len\<close> of a value that \<^verbatim>\<open>astype(str)\<close> left missing raises
  \<^verbatim>\<open>TypeError\<close>, a float having no length. The frame has rows here.\<close>

fun len :: "string option \<Rightarrow> py_error + nat" where
  "len None = Inl TypeError"
| "len (Some s) = Inr (length s)"

definition column_width :: "pylib \<Rightarrow> dataframe \<Rightarrow> string \<Rightarrow> py_error + nat" where
  "column_width L df col =
     (case map_err (\<lambda>c. len (series_astype_str L c)) (frame df col) of
        Inl e \<Rightarrow> Inl e
      | Inr lens \<Rightarrow> Inr (max (fold max lens 0) (length col)))"

definition widths :: "pylib \<Rightarrow> dataframe \<Rightarrow> py_error + nat list" where
  "widths L df = map_err (column_width L df) report_columns"

text \<open>Lines 118 to 129. The widths only centre the cells, which is left to the
  renderer.\<close>

definition table :: "dataframe \<Rightarrow> event list" where
  "table df =
     [TableHeader report_columns, TableDivider] @
     map (\<lambda>p. TableRow (map (\<lambda>col. frame df col ! p) report_columns)) [0 ..< nrows df]"

definition check_fires ::
  "pylib \<Rightarrow> (request \<Rightarrow> response) \<Rightarrow> real \<Rightarrow> real \<Rightarrow> string list \<Rightarrow> real \<Rightarrow> int
     \<Rightarrow> py_error + outcome" where
  "check_fires L fetch lat lon sat_list radius_km days =
     (case collect L fetch lat lon sat_list radius_km days of
        (evs, dfs) \<Rightarrow>
          if dfs = [] then Inr \<lparr>printed = evs @ [NoDataReturned], returned = empty_frame\<rparr>
          else
            (case process L lat lon (concat_frames dfs) of
               Inl e \<Rightarrow> Inl e
             | Inr (df, confidence_pct) \<Rightarrow>
                 (let df1 = select_reliable df confidence_pct
                  in if is_empty df1
                     then Inr \<lparr>printed = evs @ [NoReliableFires], returned = empty_frame\<rparr>
                     else
                       (let df2 = reset_index (rank L df1 confidence_pct)
                        in case widths L df2 of
                             Inl e \<Rightarrow> Inl e
                           | Inr ws \<Rightarrow>
                               Inr \<lparr>printed = evs @ [FireAlert (nrows df2) radius_km lat lon days]
                                                @ table df2,
                                    returned = df2\<rparr>))))"


subsection \<open>The intermediate values that the properties name\<close>

text \<open>The frame of line 57 (all sensors' rows, unioned), and the labels in
  \<^verbatim>\<open>confidence_pct\<close> of the rows of the report, in the order of the report: the index
  of the frame before line 107 resets it.\<close>

definition unioned ::
  "pylib \<Rightarrow> (request \<Rightarrow> response) \<Rightarrow> real \<Rightarrow> real \<Rightarrow> string list \<Rightarrow> real \<Rightarrow> int \<Rightarrow> dataframe" where
  "unioned L fetch lat lon sat_list radius_km days =
     concat_frames (snd (collect L fetch lat lon sat_list radius_km days))"

definition report_labels :: "pylib \<Rightarrow> dataframe \<Rightarrow> pyfloat list \<Rightarrow> nat list" where
  "report_labels L df confidence_pct = index (rank L (select_reliable df confidence_pct) confidence_pct)"

section \<open>Assumptions on the feed and on the library\<close>

text \<open>A frame that \<^verbatim>\<open>read_csv\<close> returns is rectangular: every column has one cell for
  each row.\<close>

definition wf_frame :: "dataframe \<Rightarrow> bool" where
  "wf_frame d = (\<forall>c \<in> set (columns d). length (frame d c) = nrows d)"

definition wf_feed :: "(request \<Rightarrow> response) \<Rightarrow> bool" where
  "wf_feed fetch = (\<forall>q d. fetch q = Rows d \<longrightarrow> wf_frame d)"

text \<open>What numpy promises of \<^verbatim>\<open>argsort\<close> whatever the kind: the result lists every
  position once, and the values read in that order ascend.\<close>

definition sorting_library :: "pylib \<Rightarrow> bool" where
  "sorting_library L =
     (\<forall>xs. NaN \<notin> set xs \<longrightarrow>
        mset (argsort L xs) = mset [0 ..< length xs] \<and>
        sorted_wrt fl_le (map ((!) xs) (argsort L xs)))"

text \<open>The data model of the feed: coordinates are numbers or missing, the acquisition
  time is an integer (or a finite float) or missing. On such a frame lines 85 and 88
  raise nothing.\<close>

fun numeric_cell :: "cell \<Rightarrow> bool" where
  "numeric_cell (CStr s) = False"
| "numeric_cell c = True"

fun time_cell :: "cell \<Rightarrow> bool" where
  "time_cell (CInt i) = True"
| "time_cell (CFloat (Fin x)) = True"
| "time_cell (CFloat NaN) = True"
| "time_cell c = False"

definition well_typed :: "dataframe \<Rightarrow> bool" where
  "well_typed df =
     (list_all numeric_cell (column_or_nan df ''latitude'') \<and>
      list_all numeric_cell (column_or_nan df ''longitude'') \<and>
      list_all time_cell (column_or_nan df ''acq_time''))"

section \<open>An instance of the library, and example feeds\<close>

text \<open>A small library for the examples, standing for Python with pandas before
  version 3: it strips the whitespace characters below 256, lowers the letters A to Z,
  reads unsigned decimal integers, prints a finite float by its integer part, turns a
  missing value into \<^verbatim>\<open>nan\<close>, and sorts by insertion.\<close>

definition is_space :: "char \<Rightarrow> bool" where
  "is_space c = (c \<in> set [CHR 0x09, CHR 0x0A, CHR 0x0B, CHR 0x0C, CHR 0x0D,
                            CHR 0x1C, CHR 0x1D, CHR 0x1E, CHR 0x1F, CHR '' '',
                            CHR 0x85, CHR 0xA0])"

definition strip :: "string \<Rightarrow> string" where
  "strip s = rev (dropWhile is_space (rev (dropWhile is_space s)))"

definition lower_char :: "char \<Rightarrow> char" where
  "lower_char c =
     (case map_of (zip ''ABCDEFGHIJKLMNOPQRSTUVWXYZ'' ''abcdefghijklmnopqrstuvwxyz'') c of
        Some d \<Rightarrow> d
      | None \<Rightarrow> c)"

definition lower :: "string \<Rightarrow> string" where
  "lower s = map lower_char s"

definition digit_value :: "char \<Rightarrow> nat option" where
  "digit_value c = map_of (zip ''0123456789'' [0, 1, 2, 3, 4, 5, 6, 7, 8, 9]) c"

fun parse_digits :: "nat \<Rightarrow> string \<Rightarrow> nat option" where
  "parse_digits n [] = Some n"
| "parse_digits n (c # cs) =
     (case digit_value c of None \<Rightarrow> None | Some d \<Rightarrow> parse_digits (10 * n + d) cs)"

definition parse_nat :: "string \<Rightarrow> nat option" where
  "parse_nat s = (if s = [] then None else parse_digits 0 s)"

fun insert_key :: "pyfloat \<times> nat \<Rightarrow> (pyfloat \<times> nat) list \<Rightarrow> (pyfloat \<times> nat) list" where
  "insert_key p [] = [p]"
| "insert_key p (q # qs) = (if fl_le (fst p) (fst q) then p # q # qs else q # insert_key p qs)"

definition insertion_argsort :: "pyfloat list \<Rightarrow> nat list" where
  "insertion_argsort xs = map snd (foldr insert_key (zip xs [0 ..< length xs]) [])"

definition simple_lib :: pylib where
  "simple_lib =
     \<lparr>float_str = (\<lambda>x. str_int \<lfloor>x\<rfloor> @ ''.0''),
      str_strip = strip,
      str_lower = lower,
      astype_str_keeps_na = False,
      to_numeric_str = (\<lambda>s. case parse_nat s of None \<Rightarrow> NaN | Some n \<Rightarrow> Fin (real n)),
      py_float = (\<lambda>s. map_option (\<lambda>n. Fin (real n)) (parse_nat s)),
      py_int = (\<lambda>s. map_option int (parse_nat s)),
      argsort = insertion_argsort\<rparr>"

text \<open>The columns that lines 63 to 89 write.\<close>

definition derived_columns :: "string list" where
  "derived_columns = [''frp'', ''confidence_percent'', ''intensity'', ''distance_km'', ''time'', ''date'']"

text \<open>The values that \<^verbatim>\<open>nargsort\<close> hands to \<^verbatim>\<open>argsort\<close>.\<close>

definition non_nans :: "pyfloat list \<Rightarrow> pyfloat list" where
  "non_nans items = filter (\<lambda>x. \<not> fl_isnan x) items"

text \<open>The frame that is sorted, and the indexer of the sort.\<close>

definition with_risk :: "dataframe \<Rightarrow> pyfloat list \<Rightarrow> dataframe" where
  "with_risk df conf =
     set_column (select_reliable df conf) ''fire_risk''
       (align (map (\<lambda>x. CStr (classify_risk x)) conf) (index (select_reliable df conf)))"

definition sort_keys :: "dataframe \<Rightarrow> pyfloat list \<Rightarrow> pyfloat list" where
  "sort_keys df conf = map float_of_cell (frame (with_risk df conf) ''distance_km'')"

text \<open>The sensors of the configuration (line 10), and an example feed: the first
  sensor returns five rows, the second a frame without rows, the third fails.\<close>

definition SATELLITES :: "string list" where
  "SATELLITES = [''MODIS_NRT'', ''VIIRS_NOAA20_NRT'', ''VIIRS_SUOMI_NPP_NRT'']"

definition frame_of :: "(string \<times> cell list) list \<Rightarrow> dataframe" where
  "frame_of cols =
     \<lparr>columns = map fst cols,
      index = [0 ..< (case cols of [] \<Rightarrow> 0 | c # cs \<Rightarrow> length (snd c))],
      frame = (\<lambda>c. case map_of cols c of Some col \<Rightarrow> col | None \<Rightarrow> [])\<rparr>"

definition example_frame :: dataframe where
  "example_frame = frame_of
     [(''latitude'', [CFloat NaN, CInt 0, CInt 0, CInt 0, CInt 0]),
      (''longitude'', [CInt 0, CInt 180, CInt 0, CInt 0, CInt 0]),
      (''frp'', [CStr ''n/a'', CInt 120, CFloat (Fin 50), CInt 5, CInt 40]),
      (''confidence'', [CInt 45, CStr '' High '', CStr ''low'', CFloat (Fin 39.5), CInt 60]),
      (''acq_time'', [CFloat NaN, CInt 1345, CInt 5, CInt 2359, CInt 700]),
      (''acq_date'', [CStr ''2024-07-01'', CStr ''2024-07-01'', CStr ''2024-07-02'',
                      CStr ''2024-07-02'', CStr ''2024-07-03''])]"

definition example_feed :: "request \<Rightarrow> response" where
  "example_feed q =
     (if req_sat q = ''MODIS_NRT'' then Rows example_frame
      else if req_sat q = ''VIIRS_NOAA20_NRT'' then Rows (frame_of [(''latitude'', [])])
      else Failed)"




section \<open>Auxiliary facts\<close>

lemma frame_set_column [simp]:
  "frame (set_column df c vs) c' = (if c' = c then vs else frame df c')"
  by (simp add: set_column_def)

lemma index_set_column [simp]: "index (set_column df c vs) = index df"
  by (simp add: set_column_def)

lemma nrows_set_column [simp]: "nrows (set_column df c vs) = nrows df"
  by (simp add: nrows_def)

lemma set_columns_set_column [simp]:
  "set (columns (set_column df c vs)) = insert c (set (columns df))"
  by (auto simp: set_column_def)

lemma frame_set_scalar [simp]:
  "frame (set_scalar df c v) c' = (if c' = c then replicate (nrows df) v else frame df c')"
  by (simp add: set_scalar_def)

lemma index_set_scalar [simp]: "index (set_scalar df c v) = index df"
  by (simp add: set_scalar_def)

lemma nrows_set_scalar [simp]: "nrows (set_scalar df c v) = nrows df"
  by (simp add: nrows_def)

lemma set_columns_set_scalar [simp]:
  "set (columns (set_scalar df c v)) = insert c (set (columns df))"
  by (simp add: set_scalar_def)


lemma fold_ensure_index: "index (fold ensure_column cs df) = index df"
  by (induction cs arbitrary: df) (simp_all add: ensure_column_def)

lemma fold_ensure_columns:
  "set (columns (fold ensure_column cs df)) = set (columns df) \<union> set cs"
  by (induction cs arbitrary: df) (auto simp: ensure_column_def)

lemma fold_ensure_frame:
  "frame (fold ensure_column cs df) c =
     (if c \<in> set cs \<and> c \<notin> set (columns df) then replicate (nrows df) (CFloat NaN)
      else frame df c)"
proof (induction cs arbitrary: df)
  case Nil
  then show ?case by simp
next
  case (Cons a cs)
  show ?case
    by (simp add: Cons.IH) (auto simp: ensure_column_def)
qed

lemma index_ensure_columns [simp]: "index (ensure_columns df) = index df"
  by (simp add: ensure_columns_def fold_ensure_index)

lemma nrows_ensure_columns [simp]: "nrows (ensure_columns df) = nrows df"
  by (simp add: nrows_def)

lemma set_columns_ensure_columns:
  "set (columns (ensure_columns df)) = set (columns df) \<union> set required_columns"
  by (simp add: ensure_columns_def fold_ensure_columns)

lemma frame_ensure_columns:
  "frame (ensure_columns df) c =
     (if c \<in> set required_columns then column_or_nan df c else frame df c)"
  by (simp add: ensure_columns_def fold_ensure_frame column_or_nan_def)

lemma select_Nil [simp]: "select keep [] = []" "select [] xs = []"
  by (simp_all add: select_def)

lemma select_Cons [simp]:
  "select (k # keep) (x # xs) = (if k then x # select keep xs else select keep xs)"
  by (simp add: select_def)

lemma length_select_le: "length (select keep xs) \<le> length xs"
  by (induction keep xs rule: list_induct2') auto

lemma select_map: "select keep (map f xs) = map f (select keep xs)"
  by (induction keep xs rule: list_induct2') auto

lemma select_map_pred: "select (map P xs) xs = filter P xs"
  by (induction xs) auto

lemma upt_Suc_shift: "[0 ..< Suc n] = 0 # map Suc [0 ..< n]"
  by (simp add: upt_conv_Cons map_Suc_upt del: upt_Suc)

lemma select_positions:
  "length keep = length xs \<Longrightarrow> select keep xs = map ((!) xs) (select keep [0 ..< length xs])"
proof (induction keep xs rule: list_induct2)
  case Nil
  then show ?case by simp
next
  case (Cons k keep x xs)
  have "select keep (map Suc [0 ..< length xs]) = map Suc (select keep [0 ..< length xs])"
    by (rule select_map)
  then show ?case
    using Cons.IH by (simp add: upt_Suc_shift comp_def del: upt_Suc)
qed

lemma select_upt_filter:
  "select keep [0 ..< length keep] = filter ((!) keep) [0 ..< length keep]"
proof (induction keep)
  case Nil
  then show ?case by simp
next
  case (Cons k keep)
  have "select keep (map Suc [0 ..< length keep]) = map Suc (select keep [0 ..< length keep])"
    by (rule select_map)
  then show ?case
    using Cons.IH by (simp add: upt_Suc_shift filter_map comp_def del: upt_Suc)
qed


lemma length_map_err: "map_err f xs = Inr ys \<Longrightarrow> length ys = length xs"
  by (induction xs arbitrary: ys) (auto split: sum.splits)

lemma map_err_nth: "map_err f xs = Inr ys \<Longrightarrow> i < length xs \<Longrightarrow> f (xs ! i) = Inr (ys ! i)"
proof (induction xs arbitrary: ys i)
  case Nil
  then show ?case by simp
next
  case (Cons x xs)
  then show ?case by (cases i) (auto split: sum.splits)
qed

lemma map_err_total:
  "(\<And>x. x \<in> set xs \<Longrightarrow> \<exists>y. f x = Inr y) \<Longrightarrow> \<exists>ys. map_err f xs = Inr ys"
proof (induction xs)
  case Nil
  then show ?case by simp
next
  case (Cons x xs)
  then obtain y where "f x = Inr y" by auto
  moreover from Cons obtain ys where "map_err f xs = Inr ys" by auto
  ultimately show ?case by simp
qed

lemma length_conf_raw [simp]: "length (conf_raw L cs) = length cs"
  by (simp add: conf_raw_def)

lemma length_normalize_confidence [simp]:
  "length (normalize_confidence L cs) = length cs"
  by (simp add: normalize_confidence_def Let_def)

lemma conf_raw_nth:
  "i < length cs \<Longrightarrow>
   conf_raw L cs ! i = map_option (\<lambda>t. str_lower L (str_strip L t)) (series_astype_str L (cs ! i))"
  by (simp add: conf_raw_def)

lemma normalize_confidence_nth:
  assumes "i < length cs"
  shows "normalize_confidence L cs ! i =
     (let mapped = (case conf_raw L cs ! i of
                      None \<Rightarrow> NaN
                    | Some t \<Rightarrow> (if t \<in> set (map fst mapping)
                                 then (case map_of mapping t of Some v \<Rightarrow> v | None \<Rightarrow> NaN)
                                 else NaN))
      in fillna (clip (Fin 0) (Fin 100) (fillna mapped (to_numeric L (cs ! i)))) (Fin 0))"
  using assms by (simp add: normalize_confidence_def Let_def split: option.split)

lemma process_conf:
  "process L lat lon df0 = Inr (df, conf) \<Longrightarrow>
   conf = normalize_confidence L (column_or_nan df0 ''confidence'')"
  by (auto simp: process_def Let_def frame_ensure_columns required_columns_def
           split: sum.splits)

lemma process_index:
  "process L lat lon df0 = Inr (df, conf) \<Longrightarrow> index df = index df0"
  by (auto simp: process_def Let_def split: sum.splits)

lemma process_frp:
  "process L lat lon df0 = Inr (df, conf) \<Longrightarrow>
   frame df ''frp'' = map (\<lambda>c. CFloat (fillna (to_numeric L c) (Fin 0))) (column_or_nan df0 ''frp'')"
  by (auto simp: process_def Let_def frame_ensure_columns required_columns_def
           split: sum.splits)

lemma process_intensity:
  "process L lat lon df0 = Inr (df, conf) \<Longrightarrow>
   frame df ''intensity'' =
     map (\<lambda>c. CStr (intensity_of (fillna (to_numeric L c) (Fin 0)))) (column_or_nan df0 ''frp'')"
  by (auto simp: process_def Let_def frame_ensure_columns required_columns_def
           split: sum.splits)

lemma process_confidence_percent:
  "process L lat lon df0 = Inr (df, conf) \<Longrightarrow>
   frame df ''confidence_percent'' = map (\<lambda>x. CStr (format_0f x @ ''%'')) conf"
  by (auto simp: process_def Let_def frame_ensure_columns required_columns_def
           split: sum.splits)

lemma process_distance:
  "process L lat lon df0 = Inr (df, conf) \<Longrightarrow>
   \<exists>d. haversine_np L lat lon (column_or_nan df0 ''latitude'') (column_or_nan df0 ''longitude'') = Inr d
      \<and> frame df ''distance_km'' = map CFloat d"
  by (auto simp: process_def Let_def frame_ensure_columns required_columns_def
           split: sum.splits)

lemma process_coordinates:
  "process L lat lon df0 = Inr (df, conf) \<Longrightarrow>
   frame df ''latitude'' = column_or_nan df0 ''latitude'' \<and>
   frame df ''longitude'' = column_or_nan df0 ''longitude''"
  by (auto simp: process_def Let_def frame_ensure_columns required_columns_def
           split: sum.splits)

lemma process_other:
  "process L lat lon df0 = Inr (df, conf) \<Longrightarrow> c \<in> set (columns df0) \<Longrightarrow>
   c \<notin> set derived_columns \<Longrightarrow> frame df c = frame df0 c"
  by (auto simp: process_def Let_def frame_ensure_columns required_columns_def
                 derived_columns_def column_or_nan_def
           split: sum.splits)

lemma process_columns:
  "process L lat lon df0 = Inr (df, conf) \<Longrightarrow>
   set (columns df) = set (columns df0) \<union> set required_columns \<union> set derived_columns"
  by (auto simp: process_def Let_def set_columns_ensure_columns required_columns_def
                 derived_columns_def
           split: sum.splits)

lemma mapping_keys: "set (map fst mapping) = {''low'', ''nominal'', ''high''}"
  by (auto simp: mapping_def)

lemma clip_cases:
  "clip (Fin 0) (Fin 100) (Fin x) = Fin (min 100 (max 0 x))"
  "clip (Fin 0) (Fin 100) PInf = Fin 100"
  "clip (Fin 0) (Fin 100) NInf = Fin 0"
  "clip (Fin 0) (Fin 100) NaN = NaN"
  by (auto simp: clip_def fl_isnan_def)

lemma normalize_confidence_range:
  assumes "i < length cs"
  shows "\<exists>x. normalize_confidence L cs ! i = Fin x \<and> 0 \<le> x \<and> x \<le> 100"
proof -
  have r: "\<exists>x. fillna (clip (Fin 0) (Fin 100) v) (Fin 0) = Fin x \<and> 0 \<le> x \<and> x \<le> 100" for v
    by (cases v) (auto simp: clip_cases fillna_def fl_isnan_def)
  show ?thesis
    using assms r by (simp add: normalize_confidence_nth Let_def)
qed

lemma to_numeric_missing: "isna c \<Longrightarrow> to_numeric L c = NaN"
  by (cases c rule: isna.cases) simp_all

lemma astype_str_missing: "isna c \<Longrightarrow> astype_str L c = ''nan''"
  by (cases c rule: isna.cases) simp_all

text \<open>
  C2. Lines 66 to 73 on one raw confidence value. Its stripped, lower-cased string is
  \<open>conf_raw\<close>: the library's \<^verbatim>\<open>lower\<close> of \<^verbatim>\<open>strip\<close> of the value as a string (for a missing
  value, of \<^verbatim>\<open>nan\<close>, or nothing where \<^verbatim>\<open>astype(str)\<close> keeps it missing). When that string
  is \<^verbatim>\<open>low\<close>, \<^verbatim>\<open>nominal\<close> or \<^verbatim>\<open>high\<close> the percent is 30, 60 or 90; otherwise, when
  \<^verbatim>\<open>to_numeric\<close> reads a number, the percent is that number clamped to 0..100; otherwise
  (nothing parses, or the value is missing) it is 0. The percent is always a number
  between 0 and 100.
\<close>

theorem confidence_normalization:
  assumes "i < length cs"
  shows "let raw = cs ! i;
             s = conf_raw L cs ! i;
             pct = normalize_confidence L cs ! i
         in (\<not> isna raw \<longrightarrow> s = Some (str_lower L (str_strip L (astype_str L raw)))) \<and>
            (isna raw \<longrightarrow> s = (if astype_str_keeps_na L then None
                                else Some (str_lower L (str_strip L ''nan'')))) \<and>
            (s = Some ''low'' \<longrightarrow> pct = Fin 30) \<and>
            (s = Some ''nominal'' \<longrightarrow> pct = Fin 60) \<and>
            (s = Some ''high'' \<longrightarrow> pct = Fin 90) \<and>
            (s \<notin> {Some ''low'', Some ''nominal'', Some ''high''} \<longrightarrow>
               (\<forall>x. to_numeric L raw = Fin x \<longrightarrow> pct = Fin (min 100 (max 0 x))) \<and>
               (to_numeric L raw = PInf \<longrightarrow> pct = Fin 100) \<and>
               (to_numeric L raw = NInf \<longrightarrow> pct = Fin 0) \<and>
               (to_numeric L raw = NaN \<longrightarrow> pct = Fin 0)) \<and>
            (isna raw \<and> str_lower L (str_strip L ''nan'') \<notin> {''low'', ''nominal'', ''high''} \<longrightarrow>
               pct = Fin 0) \<and>
            (\<exists>x. pct = Fin x \<and> 0 \<le> x \<and> x \<le> 100)"
proof -
  let ?raw = "cs ! i"
  let ?s = "conf_raw L cs ! i"
  let ?pct = "normalize_confidence L cs ! i"
  have s: "?s = map_option (\<lambda>t. str_lower L (str_strip L t)) (series_astype_str L ?raw)"
    by (rule conf_raw_nth [OF assms])
  have present: "\<not> isna ?raw \<longrightarrow> ?s = Some (str_lower L (str_strip L (astype_str L ?raw)))"
    unfolding s by (simp add: series_astype_str_def)
  have missing: "isna ?raw \<longrightarrow> ?s = (if astype_str_keeps_na L then None
                                else Some (str_lower L (str_strip L ''nan'')))"
    unfolding s by (simp add: series_astype_str_def astype_str_missing)
  have pct: "?pct = fillna (clip (Fin 0) (Fin 100)
               (fillna (case ?s of None \<Rightarrow> NaN
                        | Some t \<Rightarrow> (if t \<in> set (map fst mapping)
                                     then (case map_of mapping t of Some v \<Rightarrow> v | None \<Rightarrow> NaN)
                                     else NaN))
                  (to_numeric L ?raw))) (Fin 0)"
    using normalize_confidence_nth [OF assms, of L] by (simp add: Let_def)
  have low: "?s = Some ''low'' \<longrightarrow> ?pct = Fin 30"
    unfolding pct by (simp add: mapping_def clip_cases fillna_def fl_isnan_def)
  have nominal: "?s = Some ''nominal'' \<longrightarrow> ?pct = Fin 60"
    unfolding pct by (simp add: mapping_def clip_cases fillna_def fl_isnan_def)
  have high: "?s = Some ''high'' \<longrightarrow> ?pct = Fin 90"
    unfolding pct by (simp add: mapping_def clip_cases fillna_def fl_isnan_def)
  have other: "?pct = fillna (clip (Fin 0) (Fin 100) (to_numeric L ?raw)) (Fin 0)"
    if "?s \<notin> {Some ''low'', Some ''nominal'', Some ''high''}"
    using that unfolding pct by (cases ?s) (auto simp: mapping_def fillna_def fl_isnan_def)
  have numeric: "?s \<notin> {Some ''low'', Some ''nominal'', Some ''high''} \<longrightarrow>
               (\<forall>x. to_numeric L ?raw = Fin x \<longrightarrow> ?pct = Fin (min 100 (max 0 x))) \<and>
               (to_numeric L ?raw = PInf \<longrightarrow> ?pct = Fin 100) \<and>
               (to_numeric L ?raw = NInf \<longrightarrow> ?pct = Fin 0) \<and>
               (to_numeric L ?raw = NaN \<longrightarrow> ?pct = Fin 0)"
    using other by (auto simp: clip_cases fillna_def fl_isnan_def)
  have absent: "isna ?raw \<and> str_lower L (str_strip L ''nan'') \<notin> {''low'', ''nominal'', ''high''}
                  \<longrightarrow> ?pct = Fin 0"
  proof
    assume a: "isna ?raw \<and> str_lower L (str_strip L ''nan'') \<notin> {''low'', ''nominal'', ''high''}"
    then have "?s \<notin> {Some ''low'', Some ''nominal'', Some ''high''}"
      using missing by (cases "astype_str_keeps_na L") auto
    moreover have "to_numeric L ?raw = NaN" using a by (simp add: to_numeric_missing)
    ultimately show "?pct = Fin 0" using numeric by blast
  qed
  have range: "\<exists>x. ?pct = Fin x \<and> 0 \<le> x \<and> x \<le> 100"
    by (rule normalize_confidence_range [OF assms])
  show ?thesis
    unfolding Let_def using present missing low nominal high numeric absent range by (intro conjI)
qed

lemma simple_lib_fields:
  "str_strip simple_lib = strip" "str_lower simple_lib = lower"
  "astype_str_keeps_na simple_lib = False"
  by (simp_all add: simple_lib_def)

theorem confidence_normalization_witness:
  "normalize_confidence simple_lib [CStr '' High '', CInt 150, CStr ''n/a'', CFloat NaN] ! 0 = Fin 90 \<and>
   normalize_confidence simple_lib [CStr '' High '', CInt 150, CStr ''n/a'', CFloat NaN] ! 1 = Fin 100 \<and>
   normalize_confidence simple_lib [CStr '' High '', CInt 150, CStr ''n/a'', CFloat NaN] ! 3 = Fin 0"
proof -
  let ?cs = "[CStr '' High '', CInt 150, CStr ''n/a'', CFloat NaN]"
  have s: "conf_raw simple_lib ?cs ! 0 = Some ''high''"
          "conf_raw simple_lib ?cs ! 1 = Some ''150''"
    by (simp_all add: conf_raw_def series_astype_str_def simple_lib_fields lower_def strip_def
          is_space_def lower_char_def str_int_def digit_char_def)
  have nan: "str_lower simple_lib (str_strip simple_lib ''nan'') = ''nan''"
    by (simp add: simple_lib_fields lower_def strip_def is_space_def lower_char_def)
  have "normalize_confidence simple_lib ?cs ! 0 = Fin 90"
    using confidence_normalization [of 0 ?cs simple_lib] s(1) by (simp add: Let_def)
  moreover have "normalize_confidence simple_lib ?cs ! 1 = Fin 100"
    using confidence_normalization [of 1 ?cs simple_lib] s(2) by (simp add: Let_def)
  moreover have "normalize_confidence simple_lib ?cs ! 3 = Fin 0"
    using confidence_normalization [of 3 ?cs simple_lib] nan by (simp add: Let_def)
  ultimately show ?thesis by blast
qed

lemma frp_value:
  "fillna (to_numeric L c) (Fin 0) \<noteq> NaN"
  "to_numeric L c = NaN \<Longrightarrow> fillna (to_numeric L c) (Fin 0) = Fin 0"
  "to_numeric L c \<noteq> NaN \<Longrightarrow> fillna (to_numeric L c) (Fin 0) = to_numeric L c"
  by (auto simp: fillna_def fl_isnan_def)

lemma intensity_of_cases:
  "v \<noteq> NaN \<Longrightarrow>
   (fl_lt v (Fin 30) \<longrightarrow> intensity_of v = ''Low'') \<and>
   (fl_ge v (Fin 30) \<and> fl_lt v (Fin 100) \<longrightarrow> intensity_of v = ''Moderate'') \<and>
   (fl_ge v (Fin 100) \<longrightarrow> intensity_of v = ''High'')"
  by (cases v) (auto simp: intensity_of_def)

text \<open>
  C7. Lines 63 and 78 to 82 on one row: the stored \<^verbatim>\<open>frp\<close> is never missing, it is 0
  when the raw value is missing or does not parse and the parsed number otherwise;
  the intensity depends on that \<^verbatim>\<open>frp\<close> only: Low below 30, Moderate from 30 and below
  100, High from 100. A missing \<^verbatim>\<open>frp\<close> gives Low.
\<close>

theorem frp_and_intensity:
  assumes "process L lat lon df0 = Inr (df, conf)"
      and "p < length (column_or_nan df0 ''frp'')"
  shows "let raw = column_or_nan df0 ''frp'' ! p;
             v = fillna (to_numeric L raw) (Fin 0)
         in frame df ''frp'' ! p = CFloat v \<and> v \<noteq> NaN \<and>
            (to_numeric L raw = NaN \<longrightarrow> v = Fin 0) \<and>
            (to_numeric L raw \<noteq> NaN \<longrightarrow> v = to_numeric L raw) \<and>
            frame df ''intensity'' ! p = CStr (intensity_of v) \<and>
            (fl_lt v (Fin 30) \<longrightarrow> intensity_of v = ''Low'') \<and>
            (fl_ge v (Fin 30) \<and> fl_lt v (Fin 100) \<longrightarrow> intensity_of v = ''Moderate'') \<and>
            (fl_ge v (Fin 100) \<longrightarrow> intensity_of v = ''High'') \<and>
            (isna raw \<longrightarrow> v = Fin 0 \<and> intensity_of v = ''Low'')"
proof -
  let ?raw = "column_or_nan df0 ''frp'' ! p"
  let ?v = "fillna (to_numeric L ?raw) (Fin 0)"
  have missing: "isna ?raw \<Longrightarrow> ?v = Fin 0 \<and> intensity_of ?v = ''Low''"
    by (cases ?raw rule: isna.cases) (simp_all add: fillna_def fl_isnan_def intensity_of_def)
  show ?thesis
    using assms(2) frp_value [of L ?raw] intensity_of_cases [of ?v] missing
    by (auto simp: Let_def process_frp [OF assms(1)] process_intensity [OF assms(1)])
qed

lemma select_pred_upt:
  "select (map P xs) [0 ..< length xs] = filter (\<lambda>i. P (xs ! i)) [0 ..< length xs]"
proof -
  have "select (map P xs) [0 ..< length (map P xs)] = filter ((!) (map P xs)) [0 ..< length (map P xs)]"
    by (rule select_upt_filter)
  moreover have "filter ((!) (map P xs)) [0 ..< length xs] = filter (\<lambda>i. P (xs ! i)) [0 ..< length xs]"
    by (rule filter_cong) auto
  ultimately show ?thesis by simp
qed

lemma filter_positions:
  "map ((!) xs) (filter (\<lambda>i. P (xs ! i)) [0 ..< length xs]) = filter P xs"
proof -
  have "select (map P xs) xs = map ((!) xs) (select (map P xs) [0 ..< length xs])"
    by (rule select_positions) simp
  then show ?thesis
    by (simp add: select_map_pred select_pred_upt)
qed

lemma mset_map_nth_perm:
  assumes "mset ix = mset [0 ..< length ls]"
  shows "mset (map ((!) ls) ix) = mset ls"
proof -
  have "mset (map ((!) ls) ix) = image_mset ((!) ls) (mset ix)" by simp
  also have "\<dots> = image_mset ((!) ls) (mset [0 ..< length ls])" using assms by simp
  also have "\<dots> = mset (map ((!) ls) [0 ..< length ls])" by simp
  also have "\<dots> = mset ls" by (simp add: map_nth)
  finally show ?thesis .
qed

lemma perm_in_range:
  assumes "mset ix = mset [0 ..< n]" and "k \<in> set ix"
  shows "k < n"
proof -
  have "set ix = set [0 ..< n]" using assms(1) by (rule mset_eq_setD)
  then show ?thesis using assms(2) by simp
qed

lemma nargsort_unfold:
  "nargsort L items =
     map ((!) (filter (\<lambda>i. \<not> fl_isnan (items ! i)) [0 ..< length items])) (argsort L (non_nans items))
     @ filter (\<lambda>i. fl_isnan (items ! i)) [0 ..< length items]"
proof -
  have a: "select (map Not (map fl_isnan items)) items = non_nans items"
    using select_map_pred [of "\<lambda>x. \<not> fl_isnan x" items] by (simp add: non_nans_def comp_def)
  have b: "select (map Not (map fl_isnan items)) [0 ..< length items]
             = filter (\<lambda>i. \<not> fl_isnan (items ! i)) [0 ..< length items]"
    using select_pred_upt [of "\<lambda>x. \<not> fl_isnan x" items] by (simp add: comp_def)
  have c: "select (map fl_isnan items) [0 ..< length items]
             = filter (\<lambda>i. fl_isnan (items ! i)) [0 ..< length items]"
    by (rule select_pred_upt)
  show ?thesis
    unfolding nargsort_def Let_def a b c by (rule refl)
qed

lemma non_nans_free: "NaN \<notin> set (non_nans items)"
  by (simp add: non_nans_def fl_isnan_def)

lemma length_non_nan_positions:
  "length (filter (\<lambda>i. \<not> fl_isnan (items ! i)) [0 ..< length items]) = length (non_nans items)"
  using filter_positions [of items "\<lambda>x. \<not> fl_isnan x"]
  by (metis length_map non_nans_def)

lemma mset_filter_split:
  "mset (filter (\<lambda>x. \<not> P x) xs) + mset (filter P xs) = mset xs"
  by (induction xs) auto

lemma mset_nargsort:
  assumes "sorting_library L"
  shows "mset (nargsort L items) = mset [0 ..< length items]"
proof -
  let ?nn_idx = "filter (\<lambda>i. \<not> fl_isnan (items ! i)) [0 ..< length items]"
  have "mset (argsort L (non_nans items)) = mset [0 ..< length (non_nans items)]"
    using assms non_nans_free by (simp add: sorting_library_def)
  then have "mset (argsort L (non_nans items)) = mset [0 ..< length ?nn_idx]"
    by (simp add: length_non_nan_positions)
  then have "mset (map ((!) ?nn_idx) (argsort L (non_nans items))) = mset ?nn_idx"
    by (rule mset_map_nth_perm)
  then have "mset (nargsort L items)
      = mset ?nn_idx + mset (filter (\<lambda>i. fl_isnan (items ! i)) [0 ..< length items])"
    unfolding nargsort_unfold mset_append by (rule arg_cong2 [where f = "(+)"]) (rule refl)
  then show ?thesis
    unfolding mset_filter_split .
qed

lemma nargsort_in_range:
  "sorting_library L \<Longrightarrow> k \<in> set (nargsort L items) \<Longrightarrow> k < length items"
  using mset_nargsort perm_in_range by blast

lemma length_nargsort: "sorting_library L \<Longrightarrow> length (nargsort L items) = length items"
  using mset_nargsort [of L items] by (metis length_upt mset_eq_length minus_nat.diff_0)

lemma nargsort_values:
  assumes "sorting_library L"
  shows "map ((!) items) (nargsort L items) =
           map ((!) (non_nans items)) (argsort L (non_nans items))
           @ replicate (length (filter (\<lambda>i. fl_isnan (items ! i)) [0 ..< length items])) NaN"
proof -
  let ?nn_idx = "filter (\<lambda>i. \<not> fl_isnan (items ! i)) [0 ..< length items]"
  let ?nan_idx = "filter (\<lambda>i. fl_isnan (items ! i)) [0 ..< length items]"
  have perm: "mset (argsort L (non_nans items)) = mset [0 ..< length (non_nans items)]"
    using assms non_nans_free by (simp add: sorting_library_def)
  have nn: "map ((!) items) ?nn_idx = non_nans items"
    using filter_positions [of items "\<lambda>x. \<not> fl_isnan x"] by (simp add: non_nans_def)
  have "items ! (?nn_idx ! k) = non_nans items ! k" if "k \<in> set (argsort L (non_nans items))" for k
  proof -
    have "k < length ?nn_idx"
      using perm_in_range [OF perm that] by (simp add: length_non_nan_positions)
    then have "map ((!) items) ?nn_idx ! k = items ! (?nn_idx ! k)" by (rule nth_map)
    then show ?thesis by (simp add: nn)
  qed
  then have first: "map ((!) items) (map ((!) ?nn_idx) (argsort L (non_nans items)))
                = map ((!) (non_nans items)) (argsort L (non_nans items))"
    by simp
  have second: "map ((!) items) ?nan_idx = replicate (length ?nan_idx) NaN"
  proof -
    have "map ((!) items) ?nan_idx = map (\<lambda>i. NaN) ?nan_idx"
      by (rule map_cong) (auto simp: fl_isnan_def)
    then show ?thesis by (simp add: map_replicate_const)
  qed
  show ?thesis
    unfolding nargsort_unfold map_append first second ..
qed

lemma nans_last:
  assumes "vs = A @ replicate m NaN" and "NaN \<notin> set A"
  shows "p < length vs \<Longrightarrow> fl_isnan (vs ! p) \<Longrightarrow> \<not> fl_isnan (vs ! q) \<Longrightarrow> q < length vs \<Longrightarrow> q < p"
proof -
  assume p: "p < length vs" "fl_isnan (vs ! p)" and q: "\<not> fl_isnan (vs ! q)" "q < length vs"
  have "\<not> p < length A"
  proof
    assume "p < length A"
    then have "vs ! p \<in> set A" using assms(1) by (simp add: nth_append)
    then show False using p(2) assms(2) by (simp add: fl_isnan_def)
  qed
  moreover have "q < length A"
  proof (rule ccontr)
    assume "\<not> q < length A"
    then have "vs ! q = NaN" using assms(1) q(2) by (simp add: nth_append)
    then show False using q(1) by (simp add: fl_isnan_def)
  qed
  ultimately show "q < p" by simp
qed

lemma sorted_prefix:
  assumes "vs = A @ replicate m NaN" and "sorted_wrt fl_le A"
  shows "p < q \<Longrightarrow> q < length vs \<Longrightarrow> \<not> fl_isnan (vs ! q) \<Longrightarrow> fl_le (vs ! p) (vs ! q)"
proof -
  assume pq: "p < q" and q: "q < length vs" "\<not> fl_isnan (vs ! q)"
  have qa: "q < length A"
  proof (rule ccontr)
    assume "\<not> q < length A"
    then have "vs ! q = NaN" using assms(1) q(1) by (simp add: nth_append)
    then show False using q(2) by (simp add: fl_isnan_def)
  qed
  then have "vs ! p = A ! p" "vs ! q = A ! q" using assms(1) pq by (simp_all add: nth_append)
  then show ?thesis using sorted_wrt_nth_less [OF assms(2) pq qa] by simp
qed

lemma nargsort_prefix:
  assumes "sorting_library L"
  shows "NaN \<notin> set (map ((!) (non_nans items)) (argsort L (non_nans items)))"
    and "sorted_wrt fl_le (map ((!) (non_nans items)) (argsort L (non_nans items)))"
proof -
  have c: "mset (argsort L (non_nans items)) = mset [0 ..< length (non_nans items)]"
          "sorted_wrt fl_le (map ((!) (non_nans items)) (argsort L (non_nans items)))"
    using assms non_nans_free by (simp_all add: sorting_library_def)
  show "sorted_wrt fl_le (map ((!) (non_nans items)) (argsort L (non_nans items)))" by (rule c(2))
  have "non_nans items ! k \<in> set (non_nans items)" if "k \<in> set (argsort L (non_nans items))" for k
    using perm_in_range [OF c(1) that] by simp
  then show "NaN \<notin> set (map ((!) (non_nans items)) (argsort L (non_nans items)))"
    using non_nans_free [of items] by (metis (no_types, lifting) imageE list.set_map)
qed

lemma nargsort_nans_last:
  assumes "sorting_library L" and "vs = map ((!) items) (nargsort L items)"
      and "p < length vs" and "q < length vs" and "fl_isnan (vs ! p)" and "\<not> fl_isnan (vs ! q)"
  shows "q < p"
  using nans_last [OF _ nargsort_prefix(1) [OF assms(1)], of vs items _ p q]
        nargsort_values [OF assms(1), of items] assms(2-) by simp

lemma nargsort_ascending:
  assumes "sorting_library L" and "vs = map ((!) items) (nargsort L items)"
      and "p < q" and "q < length vs" and "\<not> fl_isnan (vs ! q)"
  shows "fl_le (vs ! p) (vs ! q)"
  using sorted_prefix [OF _ nargsort_prefix(2) [OF assms(1)], of vs items _ p q]
        nargsort_values [OF assms(1), of items] assms(2-) by simp

lemma map_nth_map:
  "\<forall>k \<in> set ix. k < length ls \<Longrightarrow> map ((!) (map f ls)) ix = map f (map ((!) ls) ix)"
  by simp

lemma reliable_positions:
  "select (map (\<lambda>x. fl_ge x (Fin 40)) conf) [0 ..< length conf]
     = filter (\<lambda>i. fl_ge (conf ! i) (Fin 40)) [0 ..< length conf]"
  by (rule select_pred_upt)

lemma index_select_reliable:
  "index df = [0 ..< length conf] \<Longrightarrow>
   index (select_reliable df conf) = filter (\<lambda>i. fl_ge (conf ! i) (Fin 40)) [0 ..< length conf]"
  by (simp add: select_reliable_def boolean_index_def reliable_positions)

lemma frame_select_reliable:
  assumes "index df = [0 ..< length conf]" and "length (frame df c) = length conf"
  shows "frame (select_reliable df conf) c = map ((!) (frame df c)) (index (select_reliable df conf))"
proof -
  have "select (map (\<lambda>x. fl_ge x (Fin 40)) conf) (frame df c)
      = map ((!) (frame df c)) (select (map (\<lambda>x. fl_ge x (Fin 40)) conf) [0 ..< length (frame df c)])"
    by (rule select_positions) (simp add: assms(2))
  then show ?thesis
    by (simp add: select_reliable_def boolean_index_def assms)
qed

lemma columns_select_reliable [simp]: "columns (select_reliable df conf) = columns df"
  by (simp add: select_reliable_def boolean_index_def)

lemma rank_unfold:
  "rank L (select_reliable df conf) conf
     = take_rows (with_risk df conf) (nargsort L (sort_keys df conf))"
  by (simp add: rank_def sort_values_def with_risk_def sort_keys_def)

lemma length_sort_keys:
  assumes "index df = [0 ..< length conf]" and "length (frame df ''distance_km'') = length conf"
  shows "length (sort_keys df conf) = length (index (select_reliable df conf))"
  by (simp add: sort_keys_def with_risk_def frame_select_reliable [OF assms])

lemma report_labels_unfold:
  "report_labels L df conf
     = map ((!) (index (select_reliable df conf))) (nargsort L (sort_keys df conf))"
  by (simp add: report_labels_def rank_unfold take_rows_def with_risk_def)

lemma mset_report_labels:
  assumes "sorting_library L" and "index df = [0 ..< length conf]"
      and "length (frame df ''distance_km'') = length conf"
  shows "mset (report_labels L df conf)
           = mset (filter (\<lambda>i. fl_ge (conf ! i) (Fin 40)) [0 ..< length conf])"
proof -
  have "mset (nargsort L (sort_keys df conf)) = mset [0 ..< length (index (select_reliable df conf))]"
    using mset_nargsort [OF assms(1), of "sort_keys df conf"]
    by (simp add: length_sort_keys [OF assms(2,3)])
  then have "mset (report_labels L df conf) = mset (index (select_reliable df conf))"
    unfolding report_labels_unfold by (rule mset_map_nth_perm)
  then show ?thesis
    by (simp add: index_select_reliable [OF assms(2)])
qed

lemma indexer_in_range:
  assumes "sorting_library L" and "index df = [0 ..< length conf]"
      and "length (frame df ''distance_km'') = length conf"
      and "k \<in> set (nargsort L (sort_keys df conf))"
  shows "k < length (index (select_reliable df conf))"
  using nargsort_in_range [OF assms(1,4)] by (simp add: length_sort_keys [OF assms(2,3)])

lemma frame_rank:
  assumes "sorting_library L" and "index df = [0 ..< length conf]"
      and "length (frame df ''distance_km'') = length conf"
      and "length (frame df c) = length conf" and "c \<noteq> ''fire_risk''"
  shows "frame (rank L (select_reliable df conf) conf) c
           = map ((!) (frame df c)) (report_labels L df conf)"
proof -
  have "frame (rank L (select_reliable df conf) conf) c
      = map ((!) (map ((!) (frame df c)) (index (select_reliable df conf))))
          (nargsort L (sort_keys df conf))"
    using assms(5)
    by (simp add: rank_unfold take_rows_def with_risk_def frame_select_reliable [OF assms(2,4)])
  also have "\<dots> = map ((!) (frame df c))
                     (map ((!) (index (select_reliable df conf))) (nargsort L (sort_keys df conf)))"
    by (rule map_nth_map) (use indexer_in_range [OF assms(1-3)] in blast)
  finally show ?thesis
    by (simp only: report_labels_unfold)
qed

lemma fire_risk_rank:
  assumes "sorting_library L" and "index df = [0 ..< length conf]"
      and "length (frame df ''distance_km'') = length conf"
  shows "frame (rank L (select_reliable df conf) conf) ''fire_risk''
           = map (\<lambda>l. CStr (classify_risk (conf ! l))) (report_labels L df conf)"
proof -
  have al: "align (map (\<lambda>x. CStr (classify_risk x)) conf) (index (select_reliable df conf))
          = map (\<lambda>l. CStr (classify_risk (conf ! l))) (index (select_reliable df conf))"
    unfolding align_def by (rule map_cong) (auto simp: index_select_reliable [OF assms(2)])
  have "frame (rank L (select_reliable df conf) conf) ''fire_risk''
      = map ((!) (map (\<lambda>l. CStr (classify_risk (conf ! l))) (index (select_reliable df conf))))
          (nargsort L (sort_keys df conf))"
    by (simp add: rank_unfold take_rows_def with_risk_def al)
  also have "\<dots> = map (\<lambda>l. CStr (classify_risk (conf ! l)))
                     (map ((!) (index (select_reliable df conf))) (nargsort L (sort_keys df conf)))"
    by (rule map_nth_map) (use indexer_in_range [OF assms(1-3)] in blast)
  finally show ?thesis
    by (simp only: report_labels_unfold)
qed

lemma columns_rank:
  "columns (rank L (select_reliable df conf) conf)
     = (if ''fire_risk'' \<in> set (columns df) then columns df else columns df @ [''fire_risk''])"
  by (simp add: rank_unfold take_rows_def with_risk_def set_column_def)

lemma distance_rank:
  assumes "sorting_library L" and "index df = [0 ..< length conf]"
      and "length (frame df ''distance_km'') = length conf"
  shows "map float_of_cell (frame (rank L (select_reliable df conf) conf) ''distance_km'')
           = map ((!) (sort_keys df conf)) (nargsort L (sort_keys df conf))"
proof -
  have "\<forall>k \<in> set (nargsort L (sort_keys df conf)). k < length (frame (with_risk df conf) ''distance_km'')"
    using nargsort_in_range [OF assms(1), of _ "sort_keys df conf"] by (auto simp: sort_keys_def)
  then have "map ((!) (map float_of_cell (frame (with_risk df conf) ''distance_km'')))
               (nargsort L (sort_keys df conf))
           = map float_of_cell
               (map ((!) (frame (with_risk df conf) ''distance_km'')) (nargsort L (sort_keys df conf)))"
    by (rule map_nth_map)
  then show ?thesis
    by (simp add: rank_unfold take_rows_def sort_keys_def)
qed

lemma wf_set_scalar: "wf_frame d \<Longrightarrow> wf_frame (set_scalar d c v)"
  by (auto simp: wf_frame_def)

lemma collect_wf:
  assumes "wf_feed fetch"
  shows "\<forall>d \<in> set (snd (collect L fetch lat lon sats radius_km days)). wf_frame d \<and> \<not> is_empty d"
proof (induction sats)
  case Nil
  then show ?case by simp
next
  case (Cons sat sats)
  have e: "is_empty (set_scalar d c v) \<Longrightarrow> index d = []" for d c v
    by (auto simp: is_empty_def set_scalar_def set_column_def split: if_splits)
  have ne: "\<not> is_empty d \<Longrightarrow> \<not> is_empty (set_scalar d c v)" for d c v
    using e [of d c v] by (auto simp: is_empty_def)
  show ?case
    using Cons assms
    by (auto simp: Let_def wf_feed_def wf_set_scalar ne split: prod.splits response.splits)
qed

lemma length_column_or_nan: "wf_frame d \<Longrightarrow> length (column_or_nan d c) = nrows d"
  by (simp add: column_or_nan_def wf_frame_def)

lemma nrows_concat_frames [simp]: "nrows (concat_frames dfs) = sum_list (map nrows dfs)"
  by (simp add: concat_frames_def nrows_def)

lemma index_concat_frames: "index (concat_frames dfs) = [0 ..< nrows (concat_frames dfs)]"
  by (simp add: concat_frames_def nrows_def)

lemma length_frame_concat_frames:
  "\<forall>d \<in> set dfs. wf_frame d \<Longrightarrow> length (frame (concat_frames dfs) c) = nrows (concat_frames dfs)"
proof (induction dfs)
  case Nil
  then show ?case by (simp add: concat_frames_def nrows_def)
next
  case (Cons d dfs)
  then have "length (frame (concat_frames dfs) c) = nrows (concat_frames dfs)" by simp
  moreover have "length (column_or_nan d c) = nrows d"
    using Cons.prems by (simp add: length_column_or_nan)
  ultimately show ?case
    by (simp add: concat_frames_def nrows_def)
qed

lemma length_column_or_nan_rect:
  "length (frame d c) = nrows d \<Longrightarrow> length (column_or_nan d c) = nrows d"
  by (simp add: column_or_nan_def)

lemma length_haversine_np:
  "haversine_np L lat0 lon0 lats lons = Inr d \<Longrightarrow> length lats = length lons \<Longrightarrow>
   length d = length lats"
  by (auto simp: haversine_np_def split: sum.splits dest!: length_map_err)

lemma process_lengths:
  assumes "process L lat lon df0 = Inr (df, conf)" and "\<forall>c. length (frame df0 c) = nrows df0"
  shows "length conf = nrows df0" and "length (frame df c) = nrows df0"
proof -
  have len: "length (column_or_nan df0 c) = nrows df0" for c
    using assms(2) by (simp add: length_column_or_nan_rect)
  show "length conf = nrows df0"
    by (simp add: process_conf [OF assms(1)] len)
  show "length (frame df c) = nrows df0"
    using assms len
    by (auto simp: process_def Let_def frame_ensure_columns required_columns_def
             split: sum.splits dest!: length_map_err length_haversine_np)
qed

lemma check_fires_no_data:
  assumes "snd (collect L fetch lat lon sats radius_km days) = []"
  shows "check_fires L fetch lat lon sats radius_km days
           = Inr \<lparr>printed = fst (collect L fetch lat lon sats radius_km days) @ [NoDataReturned],
                  returned = empty_frame\<rparr>"
  using assms by (simp add: check_fires_def case_prod_beta)

lemma check_fires_raises:
  assumes "snd (collect L fetch lat lon sats radius_km days) \<noteq> []"
      and "process L lat lon (unioned L fetch lat lon sats radius_km days) = Inl e"
  shows "check_fires L fetch lat lon sats radius_km days = Inl e"
  using assms by (simp add: check_fires_def unioned_def case_prod_beta)

lemma check_fires_filtered:
  assumes "snd (collect L fetch lat lon sats radius_km days) \<noteq> []"
      and "process L lat lon (unioned L fetch lat lon sats radius_km days) = Inr (df, conf)"
      and "is_empty (select_reliable df conf)"
  shows "check_fires L fetch lat lon sats radius_km days
           = Inr \<lparr>printed = fst (collect L fetch lat lon sats radius_km days) @ [NoReliableFires],
                  returned = empty_frame\<rparr>"
  using assms by (simp add: check_fires_def unioned_def case_prod_beta)

lemma check_fires_report:
  assumes "snd (collect L fetch lat lon sats radius_km days) \<noteq> []"
      and "process L lat lon (unioned L fetch lat lon sats radius_km days) = Inr (df, conf)"
      and "\<not> is_empty (select_reliable df conf)"
      and "widths L (reset_index (rank L (select_reliable df conf) conf)) = Inr ws"
  shows "check_fires L fetch lat lon sats radius_km days
           = Inr \<lparr>printed = fst (collect L fetch lat lon sats radius_km days)
                      @ [FireAlert (nrows (reset_index (rank L (select_reliable df conf) conf)))
                           radius_km lat lon days]
                      @ table (reset_index (rank L (select_reliable df conf) conf)),
                  returned = reset_index (rank L (select_reliable df conf) conf)\<rparr>"
  using assms by (simp add: check_fires_def unioned_def Let_def case_prod_beta)

lemma check_fires_widths_raise:
  assumes "snd (collect L fetch lat lon sats radius_km days) \<noteq> []"
      and "process L lat lon (unioned L fetch lat lon sats radius_km days) = Inr (df, conf)"
      and "\<not> is_empty (select_reliable df conf)"
      and "widths L (reset_index (rank L (select_reliable df conf) conf)) = Inl e"
  shows "check_fires L fetch lat lon sats radius_km days = Inl e"
  using assms by (simp add: check_fires_def unioned_def Let_def case_prod_beta)

lemma check_fires_report_returned:
  assumes "snd (collect L fetch lat lon sats radius_km days) \<noteq> []"
      and "process L lat lon (unioned L fetch lat lon sats radius_km days) = Inr (df, conf)"
      and "\<not> is_empty (select_reliable df conf)"
      and "check_fires L fetch lat lon sats radius_km days = Inr out"
  shows "out = \<lparr>printed = fst (collect L fetch lat lon sats radius_km days)
                      @ [FireAlert (nrows (reset_index (rank L (select_reliable df conf) conf)))
                           radius_km lat lon days]
                      @ table (reset_index (rank L (select_reliable df conf) conf)),
                  returned = reset_index (rank L (select_reliable df conf) conf)\<rparr>"
proof (cases "widths L (reset_index (rank L (select_reliable df conf) conf))")
  case (Inl e)
  then show ?thesis
    using check_fires_widths_raise [OF assms(1-3) Inl] assms(4) by simp
next
  case (Inr ws)
  then show ?thesis
    using check_fires_report [OF assms(1-3) Inr] assms(4) by simp
qed

lemma column_width_total:
  assumes "\<not> astype_str_keeps_na L"
  shows "\<exists>w. column_width L df col = Inr w"
proof -
  have "\<exists>lens. map_err (\<lambda>c. len (series_astype_str L c)) (frame df col) = Inr lens"
    by (rule map_err_total) (simp add: series_astype_str_def assms)
  then show ?thesis by (auto simp: column_width_def)
qed

lemma widths_total: "\<not> astype_str_keeps_na L \<Longrightarrow> \<exists>ws. widths L df = Inr ws"
  unfolding widths_def by (rule map_err_total) (rule column_width_total)

lemma map_err_raises:
  assumes "x \<in> set xs" and "f x = Inl e" and "\<And>y e'. f y = Inl e' \<Longrightarrow> e' = e"
  shows "map_err f xs = Inl e"
  using assms(1)
proof (induction xs)
  case Nil
  then show ?case by simp
next
  case (Cons a xs)
  show ?case
  proof (cases "f a")
    case (Inl e')
    then show ?thesis using assms(3) by simp
  next
    case (Inr y)
    then have "x \<in> set xs" using Cons.prems assms(2) by auto
    then have "map_err f xs = Inl e" by (rule Cons.IH)
    then show ?thesis using Inr by simp
  qed
qed

lemma map_err_error: "map_err f xs = Inl e \<Longrightarrow> \<exists>x \<in> set xs. f x = Inl e"
  by (induction xs) (auto split: sum.splits)

lemma len_error: "len s = Inl e \<Longrightarrow> e = TypeError"
  by (cases s) auto

lemma column_width_error: "column_width L df col = Inl e \<Longrightarrow> e = TypeError"
  by (auto simp: column_width_def split: sum.splits dest!: map_err_error len_error)

lemma column_width_raises:
  assumes "astype_str_keeps_na L" and "c \<in> set (frame df col)" and "isna c"
  shows "column_width L df col = Inl TypeError"
proof -
  have "map_err (\<lambda>c. len (series_astype_str L c)) (frame df col) = Inl TypeError"
  proof (rule map_err_raises [OF assms(2)])
    show "len (series_astype_str L c) = Inl TypeError"
      using assms(1,3) by (simp add: series_astype_str_def)
    show "e' = TypeError" if "len (series_astype_str L y) = Inl e'" for y e'
      using that by (rule len_error)
  qed
  then show ?thesis by (simp add: column_width_def)
qed

lemma widths_raises:
  assumes "astype_str_keeps_na L" and "col \<in> set report_columns"
      and "c \<in> set (frame df col)" and "isna c"
  shows "widths L df = Inl TypeError"
  unfolding widths_def
proof (rule map_err_raises [OF assms(2)])
  show "column_width L df col = Inl TypeError"
    by (rule column_width_raises [OF assms(1,3,4)])
  show "e' = TypeError" if "column_width L df y = Inl e'" for y e'
    using that by (rule column_width_error)
qed

lemma check_fires_returned:
  assumes "check_fires L fetch lat lon sats radius_km days = Inr out"
      and "process L lat lon (unioned L fetch lat lon sats radius_km days) = Inr (df, conf)"
  shows "returned out = empty_frame \<or>
         (\<not> is_empty (select_reliable df conf) \<and>
          snd (collect L fetch lat lon sats radius_km days) \<noteq> [] \<and>
          returned out = reset_index (rank L (select_reliable df conf) conf))"
proof (cases "snd (collect L fetch lat lon sats radius_km days) = []")
  case True
  then show ?thesis using assms(1) by (auto simp: check_fires_no_data)
next
  case False
  show ?thesis
  proof (cases "is_empty (select_reliable df conf)")
    case True
    then show ?thesis using assms False by (auto simp: check_fires_filtered)
  next
    case ne: False
    then show ?thesis
      using check_fires_report_returned [OF False assms(2) ne assms(1)] False by simp
  qed
qed

lemma check_fires_returned_cases:
  assumes "check_fires L fetch lat lon sats radius_km days = Inr out"
  shows "returned out = empty_frame \<or>
         (\<exists>df conf. process L lat lon (unioned L fetch lat lon sats radius_km days) = Inr (df, conf) \<and>
            \<not> is_empty (select_reliable df conf) \<and>
            snd (collect L fetch lat lon sats radius_km days) \<noteq> [] \<and>
            returned out = reset_index (rank L (select_reliable df conf) conf))"
proof (cases "snd (collect L fetch lat lon sats radius_km days) = []")
  case True
  then show ?thesis using assms by (auto simp: check_fires_no_data)
next
  case False
  show ?thesis
  proof (cases "process L lat lon (unioned L fetch lat lon sats radius_km days)")
    case (Inl e)
    then show ?thesis using assms False by (simp add: check_fires_raises)
  next
    case (Inr r)
    then obtain df conf where p: "process L lat lon (unioned L fetch lat lon sats radius_km days) = Inr (df, conf)"
      by (cases r) simp
    then show ?thesis using check_fires_returned [OF assms p] False by auto
  qed
qed

lemma astype_float_numeric:
  "list_all numeric_cell cs \<Longrightarrow> \<exists>fs. map_err (astype_float L) cs = Inr fs"
proof (rule map_err_total)
  fix x assume "list_all numeric_cell cs" "x \<in> set cs"
  then have "numeric_cell x" by (simp add: list_all_iff)
  then show "\<exists>y. astype_float L x = Inr y" by (cases x) simp_all
qed

lemma time_of_time_cell:
  "list_all time_cell cs \<Longrightarrow> \<exists>ts. map_err (time_of L) cs = Inr ts"
proof (rule map_err_total)
  fix x assume "list_all time_cell cs" "x \<in> set cs"
  then have "time_cell x" by (simp add: list_all_iff)
  then show "\<exists>y. time_of L x = Inr y"
    by (cases x rule: time_cell.cases) (simp_all add: time_of_def)
qed

lemma process_succeeds:
  assumes "well_typed df0"
  shows "\<exists>df conf. process L lat lon df0 = Inr (df, conf)"
proof -
  obtain lats where lats: "map_err (astype_float L) (column_or_nan df0 ''latitude'') = Inr lats"
    using assms astype_float_numeric unfolding well_typed_def by blast
  obtain lons where lons: "map_err (astype_float L) (column_or_nan df0 ''longitude'') = Inr lons"
    using assms astype_float_numeric unfolding well_typed_def by blast
  obtain ts where ts: "map_err (time_of L) (column_or_nan df0 ''acq_time'') = Inr ts"
    using assms time_of_time_cell unfolding well_typed_def by blast
  show ?thesis
    by (simp add: process_def Let_def frame_ensure_columns required_columns_def
                  haversine_np_def lats lons ts)
qed

lemma fl_le_total: "a \<noteq> NaN \<Longrightarrow> b \<noteq> NaN \<Longrightarrow> fl_le a b \<or> fl_le b a"
  by (cases a; cases b) (auto simp: fl_le_def)

lemma fl_le_trans: "fl_le a b \<Longrightarrow> fl_le b c \<Longrightarrow> fl_le a c"
  by (cases a; cases b; cases c) (auto simp: fl_le_def)

lemma fl_le_refl: "a \<noteq> NaN \<Longrightarrow> fl_le a a"
  by (cases a) (auto simp: fl_le_def)

lemma mset_insert_key: "mset (insert_key p qs) = add_mset p (mset qs)"
  by (induction qs) auto

lemma mset_foldr_insert_key: "mset (foldr insert_key ps []) = mset ps"
  by (induction ps) (auto simp: mset_insert_key)

lemma set_insert_key: "set (insert_key p qs) = insert p (set qs)"
  using mset_insert_key [of p qs] by (metis set_mset_add_mset_insert set_mset_mset)

lemma sorted_insert_key:
  assumes "sorted_wrt (\<lambda>p q. fl_le (fst p) (fst q)) qs"
      and "fst p \<noteq> NaN" and "\<forall>q \<in> set qs. fst q \<noteq> NaN"
  shows "sorted_wrt (\<lambda>p q. fl_le (fst p) (fst q)) (insert_key p qs)"
  using assms
proof (induction qs)
  case Nil
  then show ?case by simp
next
  case (Cons q qs)
  show ?case
  proof (cases "fl_le (fst p) (fst q)")
    case True
    then have "\<forall>r \<in> set qs. fl_le (fst p) (fst r)"
      using Cons.prems(1) fl_le_trans by auto
    then show ?thesis using True Cons.prems(1) by simp
  next
    case False
    then have qp: "fl_le (fst q) (fst p)"
      using fl_le_total [of "fst p" "fst q"] Cons.prems by simp
    have "sorted_wrt (\<lambda>p q. fl_le (fst p) (fst q)) (insert_key p qs)"
      using Cons by simp
    then show ?thesis
      using False qp Cons.prems(1) by (auto simp: set_insert_key)
  qed
qed

lemma sorted_foldr_insert_key:
  "\<forall>q \<in> set ps. fst q \<noteq> NaN \<Longrightarrow>
   sorted_wrt (\<lambda>p q. fl_le (fst p) (fst q)) (foldr insert_key ps [])"
proof (induction ps)
  case Nil
  then show ?case by simp
next
  case (Cons p ps)
  have "set (foldr insert_key ps []) = set ps"
    using mset_foldr_insert_key [of ps] by (metis set_mset_mset)
  then show ?case
    using Cons by (simp add: sorted_insert_key)
qed

lemma insertion_sort_pairs:
  assumes "NaN \<notin> set xs" and "mset ps = mset (zip xs [0 ..< length xs])"
  shows "mset (map snd (foldr insert_key ps [])) = mset [0 ..< length xs]"
    and "sorted_wrt fl_le (map ((!) xs) (map snd (foldr insert_key ps [])))"
proof -
  let ?s = "foldr insert_key ps []"
  have ms: "mset ?s = mset (zip xs [0 ..< length xs])"
    using assms(2) by (simp add: mset_foldr_insert_key)
  have "mset (map snd ?s) = mset (map snd (zip xs [0 ..< length xs]))"
    using ms by (metis mset_map)
  then show "mset (map snd ?s) = mset [0 ..< length xs]" by simp
  have sets: "set ?s = set (zip xs [0 ..< length xs])" "set ps = set (zip xs [0 ..< length xs])"
    using ms assms(2) by (metis set_mset_mset)+
  have pair: "xs ! snd q = fst q \<and> fst q \<noteq> NaN" if "q \<in> set (zip xs [0 ..< length xs])" for q
  proof -
    have "\<exists>i. xs ! i = fst q \<and> [0 ..< length xs] ! i = snd q \<and> i < length xs"
      using that unfolding in_set_zip by auto
    then have i: "xs ! snd q = fst q" "snd q < length xs" by auto
    have "xs ! snd q \<in> set xs" using i(2) by (rule nth_mem)
    then show ?thesis using i(1) assms(1) by metis
  qed
  have eq: "map ((!) xs) (map snd ?s) = map fst ?s"
    using pair sets(1) by simp
  have "sorted_wrt (\<lambda>p q. fl_le (fst p) (fst q)) ?s"
    by (rule sorted_foldr_insert_key) (use pair sets(2) in blast)
  then have "sorted_wrt fl_le (map fst ?s)"
    by (simp add: sorted_wrt_map)
  then show "sorted_wrt fl_le (map ((!) xs) (map snd ?s))"
    unfolding eq .
qed

lemma sorting_library_simple_lib: "sorting_library simple_lib"
proof -
  have "mset (insertion_argsort xs) = mset [0 ..< length xs] \<and>
        sorted_wrt fl_le (map ((!) xs) (insertion_argsort xs))" if "NaN \<notin> set xs" for xs
    unfolding insertion_argsort_def
    using insertion_sort_pairs [OF that, of "zip xs [0 ..< length xs]"] by simp
  then show ?thesis
    by (simp add: sorting_library_def simple_lib_def)
qed

lemma processed_shape:
  assumes "wf_feed fetch"
      and "process L lat lon (unioned L fetch lat lon sats radius_km days) = Inr (df, conf)"
  shows "index df = [0 ..< length conf]"
    and "length conf = nrows (unioned L fetch lat lon sats radius_km days)"
    and "length (frame df c) = length conf"
proof -
  let ?U = "unioned L fetch lat lon sats radius_km days"
  have wf: "\<forall>d \<in> set (snd (collect L fetch lat lon sats radius_km days)). wf_frame d"
    using collect_wf [OF assms(1)] by blast
  have rect: "\<forall>c. length (frame ?U c) = nrows ?U"
    unfolding unioned_def using length_frame_concat_frames [OF wf] by blast
  show len: "length conf = nrows ?U"
    by (rule process_lengths(1) [OF assms(2) rect])
  show "length (frame df c) = length conf"
    using process_lengths(2) [OF assms(2) rect] len by simp
  show "index df = [0 ..< length conf]"
    using process_index [OF assms(2)] len
    by (simp add: unioned_def index_concat_frames)
qed

lemma returned_report:
  assumes "sorting_library L" and "wf_feed fetch"
      and "process L lat lon (unioned L fetch lat lon sats radius_km days) = Inr (df, conf)"
      and "check_fires L fetch lat lon sats radius_km days = Inr out"
  shows "nrows (returned out) = length (report_labels L df conf)"
    and "c \<noteq> ''fire_risk'' \<Longrightarrow> frame (returned out) c = map ((!) (frame df c)) (report_labels L df conf)"
    and "frame (returned out) ''fire_risk''
           = map (\<lambda>l. CStr (classify_risk (conf ! l))) (report_labels L df conf)"
proof -
  note shape = processed_shape [OF assms(2,3)]
  have ms: "mset (report_labels L df conf)
              = mset (filter (\<lambda>i. fl_ge (conf ! i) (Fin 40)) [0 ..< length conf])"
    by (rule mset_report_labels [OF assms(1) shape(1) shape(3)])
  have empty: "nrows empty_frame = 0" "frame empty_frame c' = []" for c'
    by (simp_all add: empty_frame_def nrows_def)
  have goal: "nrows (returned out) = length (report_labels L df conf) \<and>
     (c \<noteq> ''fire_risk'' \<longrightarrow> frame (returned out) c = map ((!) (frame df c)) (report_labels L df conf)) \<and>
     frame (returned out) ''fire_risk''
           = map (\<lambda>l. CStr (classify_risk (conf ! l))) (report_labels L df conf)"
  proof (cases "snd (collect L fetch lat lon sats radius_km days) = []")
    case True
    have "nrows (unioned L fetch lat lon sats radius_km days) = 0"
      unfolding unioned_def True by (simp add: concat_frames_def nrows_def)
    then have "length conf = 0"
      using shape(2) by simp
    then have labels: "report_labels L df conf = []" using ms by simp
    have "Inr out = Inr \<lparr>printed = fst (collect L fetch lat lon sats radius_km days) @ [NoDataReturned],
                           returned = empty_frame\<rparr>"
      using check_fires_no_data [OF True] assms(4) by simp
    then have "returned out = empty_frame" by simp
    then show ?thesis unfolding labels by (simp add: empty)
  next
    case False
    show ?thesis
    proof (cases "is_empty (select_reliable df conf)")
      case True
      have "''latitude'' \<in> set (columns df)"
        unfolding process_columns [OF assms(3)] by (simp add: required_columns_def)
      then have "columns df \<noteq> []" by auto
      then have "index (select_reliable df conf) = []"
        using True by (simp add: is_empty_def)
      then have "filter (\<lambda>i. fl_ge (conf ! i) (Fin 40)) [0 ..< length conf] = []"
        unfolding index_select_reliable [OF shape(1)] .
      then have labels: "report_labels L df conf = []" using ms by simp
      have "Inr out = Inr \<lparr>printed = fst (collect L fetch lat lon sats radius_km days) @ [NoReliableFires],
                           returned = empty_frame\<rparr>"
        using check_fires_filtered [OF False assms(3) True] assms(4) by simp
      then have "returned out = empty_frame" by simp
      then show ?thesis unfolding labels by (simp add: empty)
    next
      case ne: False
      have "out = \<lparr>printed = fst (collect L fetch lat lon sats radius_km days)
                      @ [FireAlert (nrows (reset_index (rank L (select_reliable df conf) conf)))
                           radius_km lat lon days]
                      @ table (reset_index (rank L (select_reliable df conf) conf)),
                  returned = reset_index (rank L (select_reliable df conf) conf)\<rparr>"
        by (rule check_fires_report_returned [OF False assms(3) ne assms(4)])
      then have report: "returned out = reset_index (rank L (select_reliable df conf) conf)" by simp
      have f: "frame (returned out) c' = frame (rank L (select_reliable df conf) conf) c'" for c'
        unfolding report by (simp add: reset_index_def)
      have n: "nrows (returned out) = length (report_labels L df conf)"
        unfolding report by (simp add: reset_index_def nrows_def report_labels_def)
      have a: "c \<noteq> ''fire_risk'' \<longrightarrow> frame (returned out) c = map ((!) (frame df c)) (report_labels L df conf)"
        unfolding f using frame_rank [OF assms(1) shape(1) shape(3) shape(3), of c] by blast
      have b: "frame (returned out) ''fire_risk''
           = map (\<lambda>l. CStr (classify_risk (conf ! l))) (report_labels L df conf)"
        unfolding f by (rule fire_risk_rank [OF assms(1) shape(1) shape(3)])
      show ?thesis using n a b by blast
    qed
  qed
  show "nrows (returned out) = length (report_labels L df conf)" using goal by blast
  show "frame (returned out) c = map ((!) (frame df c)) (report_labels L df conf)" if "c \<noteq> ''fire_risk''"
    using goal that by blast
  show "frame (returned out) ''fire_risk''
           = map (\<lambda>l. CStr (classify_risk (conf ! l))) (report_labels L df conf)"
    using goal by blast
qed

lemma report_labels_facts:
  assumes "sorting_library L" and "wf_feed fetch"
      and "process L lat lon (unioned L fetch lat lon sats radius_km days) = Inr (df, conf)"
  shows "set (report_labels L df conf) = {i. i < length conf \<and> fl_ge (conf ! i) (Fin 40)}"
    and "distinct (report_labels L df conf)"
    and "length (report_labels L df conf) \<le> length conf"
proof -
  note shape = processed_shape [OF assms(2,3)]
  let ?ls = "filter (\<lambda>i. fl_ge (conf ! i) (Fin 40)) [0 ..< length conf]"
  have ms: "mset (report_labels L df conf) = mset ?ls"
    by (rule mset_report_labels [OF assms(1) shape(1) shape(3)])
  have "set (report_labels L df conf) = set ?ls"
    using ms by (rule mset_eq_setD)
  then show "set (report_labels L df conf) = {i. i < length conf \<and> fl_ge (conf ! i) (Fin 40)}"
    by auto
  have "distinct ?ls" by simp
  then show "distinct (report_labels L df conf)"
    using ms by (metis mset_eq_imp_distinct_iff)
  have "length (report_labels L df conf) = length ?ls"
    using ms by (rule mset_eq_length)
  also have "\<dots> \<le> length [0 ..< length conf]" by (rule length_filter_le)
  finally show "length (report_labels L df conf) \<le> length conf" by simp
qed

text \<open>
  C3. Every row of the returned report is a row of the unioned feed whose numeric
  confidence is at least 40: the rows of the report are distinct rows of that frame
  (their labels are \<open>report_labels\<close>), each with \<^verbatim>\<open>confidence_pct >= 40\<close> and with the
  cells of the feed in the columns that the program does not rewrite, so the report has
  no more rows than were fetched.
\<close>

theorem filtering_invariant:
  assumes "sorting_library L" and "wf_feed fetch"
      and "process L lat lon (unioned L fetch lat lon sats radius_km days) = Inr (df, conf)"
      and "check_fires L fetch lat lon sats radius_km days = Inr out"
  shows "let U = unioned L fetch lat lon sats radius_km days;
             labels = report_labels L df conf
         in nrows (returned out) \<le> nrows U \<and>
            length labels = nrows (returned out) \<and> distinct labels \<and>
            (\<forall>p < nrows (returned out).
               labels ! p < nrows U \<and> fl_ge (conf ! (labels ! p)) (Fin 40) \<and>
               (\<forall>c \<in> set (columns U). c \<notin> set derived_columns \<longrightarrow> c \<noteq> ''fire_risk'' \<longrightarrow>
                  frame (returned out) c ! p = frame U c ! (labels ! p)))"
proof -
  let ?U = "unioned L fetch lat lon sats radius_km days"
  let ?labels = "report_labels L df conf"
  note shape = processed_shape [OF assms(2,3)]
  note facts = report_labels_facts [OF assms(1-3)]
  note rep = returned_report [OF assms]
  have n: "nrows (returned out) = length ?labels" by (rule rep(1))
  have row: "?labels ! p < nrows ?U \<and> fl_ge (conf ! (?labels ! p)) (Fin 40) \<and>
             (\<forall>c \<in> set (columns ?U). c \<notin> set derived_columns \<longrightarrow> c \<noteq> ''fire_risk'' \<longrightarrow>
                  frame (returned out) c ! p = frame ?U c ! (?labels ! p))"
    if "p < length ?labels" for p
  proof -
    have "?labels ! p \<in> set ?labels" using that by (rule nth_mem)
    then have a: "?labels ! p < length conf" "fl_ge (conf ! (?labels ! p)) (Fin 40)"
      using facts(1) by auto
    have "frame (returned out) c ! p = frame ?U c ! (?labels ! p)"
      if c: "c \<in> set (columns ?U)" "c \<notin> set derived_columns" "c \<noteq> ''fire_risk''" for c
      using rep(2) [OF c(3)] process_other [OF assms(3) c(1,2)] \<open>p < length ?labels\<close> by simp
    then show ?thesis using a shape(2) by simp
  qed
  show ?thesis
    unfolding Let_def using n facts(2,3) shape(2) row by simp
qed

lemma classify_risk_cases:
  "(fl_ge x (Fin 70) \<longrightarrow> classify_risk x = ''High'') \<and>
   (fl_ge x (Fin 50) \<and> fl_lt x (Fin 70) \<longrightarrow> classify_risk x = ''Medium'') \<and>
   (fl_lt x (Fin 50) \<longrightarrow> classify_risk x = ''Low'')"
  by (cases x) (auto simp: classify_risk_def)

lemma classify_risk_report:
  "fl_ge x (Fin 40) \<Longrightarrow>
   classify_risk x \<in> {''Low'', ''Medium'', ''High''} \<and>
   (classify_risk x = ''Low'' \<longleftrightarrow> fl_lt x (Fin 50)) \<and>
   (classify_risk x = ''Medium'' \<longleftrightarrow> fl_ge x (Fin 50) \<and> fl_lt x (Fin 70)) \<and>
   (classify_risk x = ''High'' \<longleftrightarrow> fl_ge x (Fin 70))"
  by (cases x) (auto simp: classify_risk_def)

text \<open>
  C6. \<^verbatim>\<open>classify_risk\<close> depends on the numeric confidence only: High from 70, Medium
  from 50 and below 70, Low below 50. In a report every row has a confidence of at
  least 40 and the risk of that confidence, so the tiers are Medium, High, and Low
  exactly when the confidence is below 50, that is in the band from 40 to 50.
\<close>

theorem fire_risk_tiers:
  assumes "sorting_library L" and "wf_feed fetch"
      and "process L lat lon (unioned L fetch lat lon sats radius_km days) = Inr (df, conf)"
      and "check_fires L fetch lat lon sats radius_km days = Inr out"
  shows "(\<forall>x. (fl_ge x (Fin 70) \<longrightarrow> classify_risk x = ''High'') \<and>
              (fl_ge x (Fin 50) \<and> fl_lt x (Fin 70) \<longrightarrow> classify_risk x = ''Medium'') \<and>
              (fl_lt x (Fin 50) \<longrightarrow> classify_risk x = ''Low'')) \<and>
         (\<forall>p < nrows (returned out).
            let x = conf ! (report_labels L df conf ! p)
            in frame (returned out) ''fire_risk'' ! p = CStr (classify_risk x) \<and>
               fl_ge x (Fin 40) \<and>
               classify_risk x \<in> {''Low'', ''Medium'', ''High''} \<and>
               (classify_risk x = ''Low'' \<longleftrightarrow> fl_lt x (Fin 50)) \<and>
               (classify_risk x = ''Medium'' \<longleftrightarrow> fl_ge x (Fin 50) \<and> fl_lt x (Fin 70)) \<and>
               (classify_risk x = ''High'' \<longleftrightarrow> fl_ge x (Fin 70)))"
proof -
  let ?labels = "report_labels L df conf"
  note facts = report_labels_facts [OF assms(1-3)]
  note rep = returned_report [OF assms]
  have row: "frame (returned out) ''fire_risk'' ! p = CStr (classify_risk (conf ! (?labels ! p))) \<and>
             fl_ge (conf ! (?labels ! p)) (Fin 40)"
    if "p < length ?labels" for p
  proof -
    have "?labels ! p \<in> set ?labels" using that by (rule nth_mem)
    then have "fl_ge (conf ! (?labels ! p)) (Fin 40)" using facts(1) by auto
    then show ?thesis using rep(3) that by simp
  qed
  have tiers: "\<forall>x. (fl_ge x (Fin 70) \<longrightarrow> classify_risk x = ''High'') \<and>
              (fl_ge x (Fin 50) \<and> fl_lt x (Fin 70) \<longrightarrow> classify_risk x = ''Medium'') \<and>
              (fl_lt x (Fin 50) \<longrightarrow> classify_risk x = ''Low'')"
    by (rule allI) (rule classify_risk_cases)
  have rows: "\<forall>p < nrows (returned out).
            let x = conf ! (report_labels L df conf ! p)
            in frame (returned out) ''fire_risk'' ! p = CStr (classify_risk x) \<and>
               fl_ge x (Fin 40) \<and>
               classify_risk x \<in> {''Low'', ''Medium'', ''High''} \<and>
               (classify_risk x = ''Low'' \<longleftrightarrow> fl_lt x (Fin 50)) \<and>
               (classify_risk x = ''Medium'' \<longleftrightarrow> fl_ge x (Fin 50) \<and> fl_lt x (Fin 70)) \<and>
               (classify_risk x = ''High'' \<longleftrightarrow> fl_ge x (Fin 70))"
  proof (intro allI impI)
    fix p assume "p < nrows (returned out)"
    then have p: "p < length ?labels" unfolding rep(1) .
    have ge: "fl_ge (conf ! (?labels ! p)) (Fin 40)" using row [OF p] by (rule conjunct2)
    have cell: "frame (returned out) ''fire_risk'' ! p = CStr (classify_risk (conf ! (?labels ! p)))"
      using row [OF p] by (rule conjunct1)
    show "let x = conf ! (report_labels L df conf ! p)
            in frame (returned out) ''fire_risk'' ! p = CStr (classify_risk x) \<and>
               fl_ge x (Fin 40) \<and>
               classify_risk x \<in> {''Low'', ''Medium'', ''High''} \<and>
               (classify_risk x = ''Low'' \<longleftrightarrow> fl_lt x (Fin 50)) \<and>
               (classify_risk x = ''Medium'' \<longleftrightarrow> fl_ge x (Fin 50) \<and> fl_lt x (Fin 70)) \<and>
               (classify_risk x = ''High'' \<longleftrightarrow> fl_ge x (Fin 70))"
      unfolding Let_def
      by (intro conjI) (rule cell, rule ge, (rule classify_risk_report [OF ge, THEN conjunct1]),
          (rule classify_risk_report [OF ge, THEN conjunct2, THEN conjunct1]),
          (rule classify_risk_report [OF ge, THEN conjunct2, THEN conjunct2, THEN conjunct1]),
          (rule classify_risk_report [OF ge, THEN conjunct2, THEN conjunct2, THEN conjunct2]))
  qed
  show ?thesis using tiers rows by (rule conjI)
qed

lemma wf_frame_of:
  "\<forall>col \<in> set cols. length (snd col) = length (snd (hd cols)) \<Longrightarrow> distinct (map fst cols) \<Longrightarrow>
   wf_frame (frame_of cols)"
  by (cases cols) (auto simp: wf_frame_def frame_of_def nrows_def dest: map_of_SomeD weak_map_of_SomeI split: option.splits)

lemma wf_example_feed: "wf_feed example_feed"
  by (auto simp: wf_feed_def example_feed_def example_frame_def wf_frame_of split: if_splits)

lemma example_collect:
  "collect simple_lib example_feed 0 0 SATELLITES 200 7
     = ([ErrorAccessing ''VIIRS_SUOMI_NPP_NRT''],
        [set_scalar example_frame ''satellite'' (CStr ''MODIS_NRT'')])"
  by (simp add: SATELLITES_def example_feed_def Let_def is_empty_def example_frame_def frame_of_def)

lemma example_unioned:
  "unioned simple_lib example_feed 0 0 SATELLITES 200 7
     = concat_frames [set_scalar example_frame ''satellite'' (CStr ''MODIS_NRT'')]"
  by (simp add: unioned_def example_collect)

lemma example_columns:
  "column_or_nan (unioned simple_lib example_feed 0 0 SATELLITES 200 7) ''latitude''
     = [CFloat NaN, CInt 0, CInt 0, CInt 0, CInt 0]"
  "column_or_nan (unioned simple_lib example_feed 0 0 SATELLITES 200 7) ''longitude''
     = [CInt 0, CInt 180, CInt 0, CInt 0, CInt 0]"
  "column_or_nan (unioned simple_lib example_feed 0 0 SATELLITES 200 7) ''frp''
     = [CStr ''n/a'', CInt 120, CFloat (Fin 50), CInt 5, CInt 40]"
  "column_or_nan (unioned simple_lib example_feed 0 0 SATELLITES 200 7) ''confidence''
     = [CInt 45, CStr '' High '', CStr ''low'', CFloat (Fin 39.5), CInt 60]"
  "column_or_nan (unioned simple_lib example_feed 0 0 SATELLITES 200 7) ''acq_time''
     = [CFloat NaN, CInt 1345, CInt 5, CInt 2359, CInt 700]"
  by (simp_all add: example_unioned concat_frames_def column_or_nan_def union_columns_def
        example_frame_def frame_of_def set_scalar_def set_column_def)

lemma example_well_typed: "well_typed (unioned simple_lib example_feed 0 0 SATELLITES 200 7)"
  by (simp add: well_typed_def example_columns)

lemma example_normalize:
  "normalize_confidence simple_lib [CInt 45, CStr '' High '', CStr ''low'', CFloat (Fin 39.5), CInt 60]
     = [Fin 45, Fin 90, Fin 30, Fin 39.5, Fin 60]"
  by (simp add: normalize_confidence_def conf_raw_def series_astype_str_def Let_def mapping_def
        lower_def strip_def is_space_def lower_char_def simple_lib_def str_int_def digit_char_def
        clip_def fillna_def fl_isnan_def)

lemma haversine_origin: "haversine 0 0 0 0 = Fin 0"
  by (simp add: haversine_def Let_def radians_def arctan2_def)

lemma haversine_antipode: "haversine 0 0 0 180 = Fin (6371 * pi)"
  by (simp add: haversine_def Let_def radians_def arctan2_def)

lemma example_haversine:
  "haversine_np simple_lib 0 0 [CFloat NaN, CInt 0, CInt 0, CInt 0, CInt 0]
       [CInt 0, CInt 180, CInt 0, CInt 0, CInt 0]
     = Inr [NaN, Fin (6371 * pi), Fin 0, Fin 0, Fin 0]"
  by (simp add: haversine_np_def haversine_origin haversine_antipode)

lemma example_nargsort:
  "nargsort simple_lib [NaN, Fin (6371 * pi), Fin 0] = [2, 1, 0]"
  by (simp add: nargsort_def Let_def fl_isnan_def simple_lib_def insertion_argsort_def fl_le_def)

lemma example_conf:
  assumes "process simple_lib 0 0 (unioned simple_lib example_feed 0 0 SATELLITES 200 7) = Inr (df, conf)"
  shows "conf = [Fin 45, Fin 90, Fin 30, Fin 39.5, Fin 60]"
  using process_conf [OF assms] unfolding example_columns example_normalize .

lemma example_labels:
  assumes "process simple_lib 0 0 (unioned simple_lib example_feed 0 0 SATELLITES 200 7) = Inr (df, conf)"
  shows "report_labels simple_lib df conf = [4, 1, 0]"
proof -
  note shape = processed_shape [OF wf_example_feed assms]
  have conf: "conf = [Fin 45, Fin 90, Fin 30, Fin 39.5, Fin 60]" by (rule example_conf [OF assms])
  have idx: "index (select_reliable df conf) = [0, 1, 4]"
    unfolding index_select_reliable [OF shape(1)] by (simp add: conf upt_rec)
  obtain d where d: "haversine_np simple_lib 0 0
        (column_or_nan (unioned simple_lib example_feed 0 0 SATELLITES 200 7) ''latitude'')
        (column_or_nan (unioned simple_lib example_feed 0 0 SATELLITES 200 7) ''longitude'') = Inr d"
      "frame df ''distance_km'' = map CFloat d"
    using process_distance [OF assms] by blast
  have dist: "frame df ''distance_km'' = map CFloat [NaN, Fin (6371 * pi), Fin 0, Fin 0, Fin 0]"
    using d by (simp add: example_columns example_haversine)
  have keys: "sort_keys df conf = [NaN, Fin (6371 * pi), Fin 0]"
    by (simp add: sort_keys_def with_risk_def frame_select_reliable [OF shape(1) shape(3)] idx dist)
  show ?thesis
    by (simp add: report_labels_unfold idx keys example_nargsort)
qed

lemma example_run:
  "\<exists>df conf out.
     process simple_lib 0 0 (unioned simple_lib example_feed 0 0 SATELLITES 200 7) = Inr (df, conf) \<and>
     check_fires simple_lib example_feed 0 0 SATELLITES 200 7 = Inr out"
proof -
  obtain df conf where p:
    "process simple_lib 0 0 (unioned simple_lib example_feed 0 0 SATELLITES 200 7) = Inr (df, conf)"
    using process_succeeds [OF example_well_typed] by blast
  have ne: "snd (collect simple_lib example_feed 0 0 SATELLITES 200 7) \<noteq> []"
    by (simp add: example_collect)
  have "\<exists>out. check_fires simple_lib example_feed 0 0 SATELLITES 200 7 = Inr out"
  proof (cases "is_empty (select_reliable df conf)")
    case True
    show ?thesis using check_fires_filtered [OF ne p True] by blast
  next
    case False
    obtain ws where "widths simple_lib (reset_index (rank simple_lib (select_reliable df conf) conf))
                       = Inr ws"
      using widths_total [of simple_lib] by (auto simp: simple_lib_fields)
    then show ?thesis using check_fires_report [OF ne p False] by blast
  qed
  then show ?thesis using p by blast
qed

theorem frp_and_intensity_witness:
  "\<exists>df conf.
     process simple_lib 0 0 (unioned simple_lib example_feed 0 0 SATELLITES 200 7) = Inr (df, conf) \<and>
     frame df ''frp'' ! 0 = CFloat (Fin 0) \<and> frame df ''intensity'' ! 0 = CStr ''Low'' \<and>
     frame df ''frp'' ! 1 = CFloat (Fin 120) \<and> frame df ''intensity'' ! 1 = CStr ''High''"
proof -
  obtain df conf where p:
    "process simple_lib 0 0 (unioned simple_lib example_feed 0 0 SATELLITES 200 7) = Inr (df, conf)"
    using example_run by blast
  have t: "to_numeric_str simple_lib ''n/a'' = NaN"
    by (simp add: simple_lib_def parse_nat_def digit_value_def)
  have "frame df ''frp'' ! 0 = CFloat (Fin 0) \<and> frame df ''intensity'' ! 0 = CStr ''Low''"
    using frp_and_intensity [OF p, of 0]
    by (simp add: example_columns Let_def t fillna_def fl_isnan_def intensity_of_def)
  moreover have "frame df ''frp'' ! 1 = CFloat (Fin 120) \<and> frame df ''intensity'' ! 1 = CStr ''High''"
    using frp_and_intensity [OF p, of 1]
    by (simp add: example_columns Let_def fillna_def fl_isnan_def intensity_of_def)
  ultimately show ?thesis using p by blast
qed

theorem filtering_invariant_witness:
  "\<exists>df conf out.
     process simple_lib 0 0 (unioned simple_lib example_feed 0 0 SATELLITES 200 7) = Inr (df, conf) \<and>
     check_fires simple_lib example_feed 0 0 SATELLITES 200 7 = Inr out \<and>
     nrows (unioned simple_lib example_feed 0 0 SATELLITES 200 7) = 5 \<and>
     nrows (returned out) = 3 \<and>
     report_labels simple_lib df conf = [4, 1, 0] \<and>
     fl_ge (conf ! 4) (Fin 40) \<and> fl_ge (conf ! 1) (Fin 40) \<and> fl_ge (conf ! 0) (Fin 40) \<and>
     frame (returned out) ''acq_time'' ! 0 = CInt 700"
proof -
  obtain df conf out where p:
    "process simple_lib 0 0 (unioned simple_lib example_feed 0 0 SATELLITES 200 7) = Inr (df, conf)"
    and c: "check_fires simple_lib example_feed 0 0 SATELLITES 200 7 = Inr out"
    using example_run by blast
  have cols: "''acq_time'' \<in> set (columns (unioned simple_lib example_feed 0 0 SATELLITES 200 7))"
             "frame (unioned simple_lib example_feed 0 0 SATELLITES 200 7) ''acq_time'' ! 4 = CInt 700"
             "nrows (unioned simple_lib example_feed 0 0 SATELLITES 200 7) = 5"
    by (simp_all add: example_unioned concat_frames_def column_or_nan_def union_columns_def
          example_frame_def frame_of_def set_scalar_def set_column_def nrows_def)
  note inv = filtering_invariant [OF sorting_library_simple_lib wf_example_feed p c,
                unfolded Let_def example_labels [OF p]]
  have n: "nrows (returned out) = 3" using inv by simp
  have rows: "\<forall>q < 3. fl_ge (conf ! ([4, 1, 0] ! q)) (Fin 40) \<and>
           frame (returned out) ''acq_time'' ! q
             = frame (unioned simple_lib example_feed 0 0 SATELLITES 200 7) ''acq_time'' ! ([4, 1, 0] ! q)"
    using inv cols(1) unfolding n by (simp add: derived_columns_def)
  have "fl_ge (conf ! 4) (Fin 40) \<and> fl_ge (conf ! 1) (Fin 40) \<and> fl_ge (conf ! 0) (Fin 40) \<and>
        frame (returned out) ''acq_time'' ! 0 = CInt 700"
    using rows cols(2) by (simp add: All_less_Suc numeral_3_eq_3)
  then have "nrows (returned out) = 3 \<and>
        fl_ge (conf ! 4) (Fin 40) \<and> fl_ge (conf ! 1) (Fin 40) \<and> fl_ge (conf ! 0) (Fin 40) \<and>
        frame (returned out) ''acq_time'' ! 0 = CInt 700"
    using n by simp
  then show ?thesis using p c cols(3) example_labels [OF p] by blast
qed

theorem fire_risk_tiers_witness:
  "\<exists>df conf out.
     process simple_lib 0 0 (unioned simple_lib example_feed 0 0 SATELLITES 200 7) = Inr (df, conf) \<and>
     check_fires simple_lib example_feed 0 0 SATELLITES 200 7 = Inr out \<and>
     conf = [Fin 45, Fin 90, Fin 30, Fin 39.5, Fin 60] \<and>
     report_labels simple_lib df conf = [4, 1, 0] \<and>
     frame (returned out) ''fire_risk'' ! 0 = CStr ''Medium'' \<and>
     frame (returned out) ''fire_risk'' ! 1 = CStr ''High'' \<and>
     frame (returned out) ''fire_risk'' ! 2 = CStr ''Low''"
proof -
  obtain df conf out where p:
    "process simple_lib 0 0 (unioned simple_lib example_feed 0 0 SATELLITES 200 7) = Inr (df, conf)"
    and c: "check_fires simple_lib example_feed 0 0 SATELLITES 200 7 = Inr out"
    using example_run by blast
  have n: "nrows (returned out) = 3"
    using returned_report(1) [OF sorting_library_simple_lib wf_example_feed p c]
    by (simp add: example_labels [OF p])
  have x: "conf ! (report_labels simple_lib df conf ! 0) = Fin 60"
          "conf ! (report_labels simple_lib df conf ! 1) = Fin 90"
          "conf ! (report_labels simple_lib df conf ! 2) = Fin 45"
    unfolding example_labels [OF p] by (simp_all add: example_conf [OF p])
  have "frame (returned out) ''fire_risk'' ! 0 = CStr ''Medium'' \<and>
        frame (returned out) ''fire_risk'' ! 1 = CStr ''High'' \<and>
        frame (returned out) ''fire_risk'' ! 2 = CStr ''Low''"
    using fire_risk_tiers [OF sorting_library_simple_lib wf_example_feed p c] x
    by (simp add: Let_def n classify_risk_def All_less_Suc numeral_3_eq_3 numeral_2_eq_2)
  then show ?thesis using p c example_conf [OF p] example_labels [OF p] by blast
qed

lemma astype_float_missing: "isna c \<Longrightarrow> astype_float L c = Inr NaN"
  by (cases c rule: isna.cases) simp_all

lemma haversine_fl_nan: "haversine_fl lat0 lon0 NaN b = NaN" "haversine_fl lat0 lon0 a NaN = NaN"
  by (cases a; simp)+

lemma haversine_np_missing:
  assumes "haversine_np L lat0 lon0 lats lons = Inr d" and "length lats = length lons"
      and "i < length lats" and "isna (lats ! i) \<or> isna (lons ! i)"
  shows "d ! i = NaN"
proof -
  obtain lf where lf: "map_err (astype_float L) lats = Inr lf"
    using assms(1) by (auto simp: haversine_np_def split: sum.splits)
  obtain lo where lo: "map_err (astype_float L) lons = Inr lo"
    using assms(1) lf by (auto simp: haversine_np_def split: sum.splits)
  have d: "d = map2 (haversine_fl lat0 lon0) lf lo"
    using assms(1) by (simp add: haversine_np_def lf lo)
  have len: "length lf = length lats" "length lo = length lons"
    using lf lo by (auto dest: length_map_err)
  have a: "astype_float L (lats ! i) = Inr (lf ! i)"
    by (rule map_err_nth [OF lf assms(3)])
  have b: "astype_float L (lons ! i) = Inr (lo ! i)"
    by (rule map_err_nth [OF lo]) (use assms(2,3) in simp)
  have "lf ! i = NaN \<or> lo ! i = NaN"
    using assms(4) a b astype_float_missing [of "lats ! i" L] astype_float_missing [of "lons ! i" L]
    by auto
  then have "haversine_fl lat0 lon0 (lf ! i) (lo ! i) = NaN"
    using haversine_fl_nan by metis
  then show ?thesis
    using len assms(2,3) by (simp add: d)
qed

lemma report_run:
  assumes "check_fires L fetch lat lon sats radius_km days = Inr out" and "0 < nrows (returned out)"
  obtains df conf where
    "process L lat lon (unioned L fetch lat lon sats radius_km days) = Inr (df, conf)"
    "returned out = reset_index (rank L (select_reliable df conf) conf)"
proof -
  have "returned out \<noteq> empty_frame"
    using assms(2) by (auto simp: empty_frame_def nrows_def)
  then show ?thesis
    using check_fires_returned_cases [OF assms(1)] that by blast
qed

lemma returned_distance:
  assumes "sorting_library L" and "wf_feed fetch"
      and "process L lat lon (unioned L fetch lat lon sats radius_km days) = Inr (df, conf)"
      and "returned out = reset_index (rank L (select_reliable df conf) conf)"
  shows "map float_of_cell (frame (returned out) ''distance_km'')
           = map ((!) (sort_keys df conf)) (nargsort L (sort_keys df conf))"
    and "length (frame (returned out) ''distance_km'') = nrows (returned out)"
proof -
  note shape = processed_shape [OF assms(2,3)]
  have f: "frame (returned out) ''distance_km'' = frame (rank L (select_reliable df conf) conf) ''distance_km''"
    unfolding assms(4) by (simp add: reset_index_def)
  show "map float_of_cell (frame (returned out) ''distance_km'')
           = map ((!) (sort_keys df conf)) (nargsort L (sort_keys df conf))"
    unfolding f by (rule distance_rank [OF assms(1) shape(1) shape(3)])
  have "frame (rank L (select_reliable df conf) conf) ''distance_km''
          = map ((!) (frame df ''distance_km'')) (report_labels L df conf)"
    by (rule frame_rank [OF assms(1) shape(1) shape(3) shape(3)]) simp
  then show "length (frame (returned out) ''distance_km'') = nrows (returned out)"
    unfolding f assms(4) by (simp add: reset_index_def nrows_def report_labels_def)
qed

lemma returned_distance_cells:
  assumes "sorting_library L" and "wf_feed fetch"
      and "process L lat lon (unioned L fetch lat lon sats radius_km days) = Inr (df, conf)"
      and "check_fires L fetch lat lon sats radius_km days = Inr out"
      and "p < nrows (returned out)"
  shows "\<exists>x. frame (returned out) ''distance_km'' ! p = CFloat x \<and>
             (isna (frame (returned out) ''latitude'' ! p) \<or>
              isna (frame (returned out) ''longitude'' ! p) \<longrightarrow> x = NaN)"
proof -
  let ?U = "unioned L fetch lat lon sats radius_km days"
  let ?labels = "report_labels L df conf"
  note shape = processed_shape [OF assms(2,3)]
  note rep = returned_report [OF assms(1-4)]
  note facts = report_labels_facts [OF assms(1-3)]
  have p: "p < length ?labels" using assms(5) rep(1) by simp
  then have "?labels ! p \<in> set ?labels" by (rule nth_mem)
  then have l: "?labels ! p < length conf" using facts(1) by simp
  obtain d where d: "haversine_np L lat lon (column_or_nan ?U ''latitude'') (column_or_nan ?U ''longitude'') = Inr d"
      "frame df ''distance_km'' = map CFloat d"
    using process_distance [OF assms(3)] by blast
  have coord: "frame df ''latitude'' = column_or_nan ?U ''latitude''"
              "frame df ''longitude'' = column_or_nan ?U ''longitude''"
    using process_coordinates [OF assms(3)] by simp_all
  have len: "length (column_or_nan ?U ''latitude'') = length conf"
            "length (column_or_nan ?U ''longitude'') = length conf"
    using shape(3) [of "''latitude''"] shape(3) [of "''longitude''"] coord by simp_all
  have lend: "length d = length conf"
    using shape(3) [of "''distance_km''"] d(2) by simp
  have cell: "frame (returned out) ''distance_km'' ! p = CFloat (d ! (?labels ! p))"
    using rep(2) [of "''distance_km''"] p l lend by (simp add: d(2))
  have lat: "frame (returned out) ''latitude'' ! p = column_or_nan ?U ''latitude'' ! (?labels ! p)"
    using rep(2) [of "''latitude''"] p by (simp add: coord)
  have lon: "frame (returned out) ''longitude'' ! p = column_or_nan ?U ''longitude'' ! (?labels ! p)"
    using rep(2) [of "''longitude''"] p by (simp add: coord)
  have "d ! (?labels ! p) = NaN"
    if "isna (frame (returned out) ''latitude'' ! p) \<or> isna (frame (returned out) ''longitude'' ! p)"
    by (rule haversine_np_missing [OF d(1)]) (use that len l lat lon in simp_all)
  then show ?thesis using cell by blast
qed

lemma nan_distance_last:
  assumes "sorting_library L" and "wf_feed fetch"
      and "check_fires L fetch lat lon sats radius_km days = Inr out"
      and "p < nrows (returned out)" and "q < nrows (returned out)"
      and "isna (frame (returned out) ''latitude'' ! p) \<or> isna (frame (returned out) ''longitude'' ! p)"
      and "\<not> isna (frame (returned out) ''distance_km'' ! q)"
  shows "isna (frame (returned out) ''distance_km'' ! p) \<and> q < p"
proof -
  have pos: "0 < nrows (returned out)" using assms(4) by simp
  obtain df conf where run:
      "process L lat lon (unioned L fetch lat lon sats radius_km days) = Inr (df, conf)"
      "returned out = reset_index (rank L (select_reliable df conf) conf)"
    using report_run [OF assms(3) pos] by blast
  let ?vs = "map float_of_cell (frame (returned out) ''distance_km'')"
  note dist = returned_distance [OF assms(1,2) run]
  obtain x where x: "frame (returned out) ''distance_km'' ! p = CFloat x" "x = NaN"
    using returned_distance_cells [OF assms(1,2) run(1) assms(3,4)] assms(6) by blast
  obtain y where y: "frame (returned out) ''distance_km'' ! q = CFloat y"
    using returned_distance_cells [OF assms(1,2) run(1) assms(3,5)] by blast
  have lp: "p < length ?vs" and lq: "q < length ?vs"
    using assms(4,5) dist(2) by simp_all
  have np: "fl_isnan (?vs ! p)"
    using lp x by (simp add: fl_isnan_def)
  have "y \<noteq> NaN" using assms(7) y by auto
  then have nq: "\<not> fl_isnan (?vs ! q)"
    using lq y by (simp add: fl_isnan_def)
  have "q < p"
    by (rule nargsort_nans_last [OF assms(1) dist(1) lp lq np nq])
  moreover have "isna (frame (returned out) ''distance_km'' ! p)"
    using x by simp
  ultimately show ?thesis by (rule conjI [rotated])
qed

lemma report_with_missing_value_raises:
  assumes "astype_str_keeps_na L"
      and "snd (collect L fetch lat lon sats radius_km days) \<noteq> []"
      and "process L lat lon (unioned L fetch lat lon sats radius_km days) = Inr (df, conf)"
      and "\<not> is_empty (select_reliable df conf)"
      and "col \<in> set report_columns"
      and "c \<in> set (frame (reset_index (rank L (select_reliable df conf) conf)) col)"
      and "isna c"
  shows "check_fires L fetch lat lon sats radius_km days = Inl TypeError"
  by (rule check_fires_widths_raise [OF assms(2-4) widths_raises [OF assms(1,5,6,7)]])

lemma length_returned_column:
  assumes "sorting_library L" and "wf_feed fetch"
      and "process L lat lon (unioned L fetch lat lon sats radius_km days) = Inr (df, conf)"
      and "check_fires L fetch lat lon sats radius_km days = Inr out"
  shows "length (frame (returned out) c) = nrows (returned out)"
proof (cases "c = ''fire_risk''")
  case True
  then show ?thesis
    using returned_report(1,3) [OF assms] by simp
next
  case False
  then show ?thesis
    using returned_report(1) [OF assms] returned_report(2) [OF assms False] by simp
qed

lemma returned_without_missing:
  assumes "sorting_library L" and "wf_feed fetch"
      and "check_fires L fetch lat lon sats radius_km days = Inr out"
      and "p < nrows (returned out)" and "col \<in> set report_columns"
      and "isna (frame (returned out) col ! p)"
  shows "\<not> astype_str_keeps_na L"
proof
  assume keeps: "astype_str_keeps_na L"
  have pos: "0 < nrows (returned out)" using assms(4) by simp
  obtain df conf where run:
      "process L lat lon (unioned L fetch lat lon sats radius_km days) = Inr (df, conf)"
      "returned out = reset_index (rank L (select_reliable df conf) conf)"
    using report_run [OF assms(3) pos] by blast
  have cases: "\<not> is_empty (select_reliable df conf)"
              "snd (collect L fetch lat lon sats radius_km days) \<noteq> []"
    using check_fires_returned [OF assms(3) run(1)] pos
    by (auto simp: empty_frame_def nrows_def)
  have "p < length (frame (returned out) col)"
    using assms(4) length_returned_column [OF assms(1,2) run(1) assms(3)] by simp
  then have "frame (returned out) col ! p \<in> set (frame (returned out) col)"
    by (rule nth_mem)
  then have "widths L (returned out) = Inl TypeError"
    using widths_raises [OF keeps assms(5) _ assms(6)] by blast
  then have "check_fires L fetch lat lon sats radius_km days = Inl TypeError"
    unfolding run(2) by (rule check_fires_widths_raise [OF cases(2) run(1) cases(1)])
  then show False using assms(3) by simp
qed

text \<open>
  C4. In the returned report a row whose latitude or longitude is missing has a missing
  \<^verbatim>\<open>distance_km\<close>, and it comes after every row whose \<^verbatim>\<open>distance_km\<close> is defined. A report
  with such a row is returned only where \<^verbatim>\<open>astype(str)\<close> turns a missing value into the
  string \<^verbatim>\<open>nan\<close>, that is with pandas before version 3: where the value stays missing,
  line 113 raises \<^verbatim>\<open>TypeError\<close> on it and the run returns nothing.
\<close>

theorem missing_coordinates_last:
  assumes "sorting_library L" and "wf_feed fetch"
      and "check_fires L fetch lat lon sats radius_km days = Inr out"
      and "p < nrows (returned out)" and "q < nrows (returned out)"
      and "isna (frame (returned out) ''latitude'' ! p) \<or> isna (frame (returned out) ''longitude'' ! p)"
      and "\<not> isna (frame (returned out) ''distance_km'' ! q)"
  shows "isna (frame (returned out) ''distance_km'' ! p) \<and> q < p \<and> \<not> astype_str_keeps_na L"
proof -
  have a: "isna (frame (returned out) ''distance_km'' ! p) \<and> q < p"
    by (rule nan_distance_last [OF assms])
  have "''latitude'' \<in> set report_columns" "''longitude'' \<in> set report_columns"
    by (simp_all add: report_columns_def)
  then have "\<not> astype_str_keeps_na L"
    using assms(6) returned_without_missing [OF assms(1-4)] by blast
  then show ?thesis using a by simp
qed

text \<open>
  The returned report ascends in \<^verbatim>\<open>distance_km\<close>: of two rows, the later one having a
  defined distance, the earlier one has a distance that is not greater. Line 107 calls
  \<^verbatim>\<open>sort_values\<close> without a \<^verbatim>\<open>kind\<close>, so the sorting routine is numpy's default one,
  of which only that it sorts is used here.
\<close>

lemma report_sorted_by_distance:
  assumes "sorting_library L" and "wf_feed fetch"
      and "check_fires L fetch lat lon sats radius_km days = Inr out"
      and "p < q" and "q < nrows (returned out)"
      and "\<not> isna (frame (returned out) ''distance_km'' ! q)"
  shows "fl_le (float_of_cell (frame (returned out) ''distance_km'' ! p))
               (float_of_cell (frame (returned out) ''distance_km'' ! q))"
proof -
  have pos: "0 < nrows (returned out)" using assms(5) by simp
  obtain df conf where run:
      "process L lat lon (unioned L fetch lat lon sats radius_km days) = Inr (df, conf)"
      "returned out = reset_index (rank L (select_reliable df conf) conf)"
    using report_run [OF assms(3) pos] by blast
  let ?vs = "map float_of_cell (frame (returned out) ''distance_km'')"
  note dist = returned_distance [OF assms(1,2) run]
  obtain y where y: "frame (returned out) ''distance_km'' ! q = CFloat y"
    using returned_distance_cells [OF assms(1,2) run(1) assms(3,5)] by blast
  have lq: "q < length ?vs" using assms(5) dist(2) by simp
  then have lp: "p < length ?vs" using assms(4) by simp
  have "y \<noteq> NaN" using assms(6) y by auto
  then have nq: "\<not> fl_isnan (?vs ! q)"
    using lq y by (simp add: fl_isnan_def)
  have "fl_le (?vs ! p) (?vs ! q)"
    by (rule nargsort_ascending [OF assms(1) dist(1) assms(4) lq nq])
  then show ?thesis using lp lq by simp
qed

lemma example_returned:
  assumes "process simple_lib 0 0 (unioned simple_lib example_feed 0 0 SATELLITES 200 7) = Inr (df, conf)"
      and "check_fires simple_lib example_feed 0 0 SATELLITES 200 7 = Inr out"
  shows "nrows (returned out) = 3"
    and "frame (returned out) ''latitude'' = [CInt 0, CInt 0, CFloat NaN]"
    and "frame (returned out) ''distance_km'' = [CFloat (Fin 0), CFloat (Fin (6371 * pi)), CFloat NaN]"
proof -
  note rep = returned_report [OF sorting_library_simple_lib wf_example_feed assms]
  note labels = example_labels [OF assms(1)]
  show "nrows (returned out) = 3" unfolding rep(1) labels by simp
  have lat: "frame df ''latitude'' = [CFloat NaN, CInt 0, CInt 0, CInt 0, CInt 0]"
    using process_coordinates [OF assms(1)] by (simp add: example_columns)
  show "frame (returned out) ''latitude'' = [CInt 0, CInt 0, CFloat NaN]"
    using rep(2) [of "''latitude''"] unfolding labels lat by simp
  obtain d where d: "haversine_np simple_lib 0 0
        (column_or_nan (unioned simple_lib example_feed 0 0 SATELLITES 200 7) ''latitude'')
        (column_or_nan (unioned simple_lib example_feed 0 0 SATELLITES 200 7) ''longitude'') = Inr d"
      "frame df ''distance_km'' = map CFloat d"
    using process_distance [OF assms(1)] by blast
  have "d = [NaN, Fin (6371 * pi), Fin 0, Fin 0, Fin 0]"
    using d(1) unfolding example_columns example_haversine by simp
  then have dist: "frame df ''distance_km'' = [CFloat NaN, CFloat (Fin (6371 * pi)), CFloat (Fin 0), CFloat (Fin 0), CFloat (Fin 0)]"
    using d(2) by simp
  show "frame (returned out) ''distance_km'' = [CFloat (Fin 0), CFloat (Fin (6371 * pi)), CFloat NaN]"
    using rep(2) [of "''distance_km''"] unfolding labels dist by simp
qed

theorem missing_coordinates_last_witness:
  "\<exists>out. check_fires simple_lib example_feed 0 0 SATELLITES 200 7 = Inr out \<and>
         frame (returned out) ''latitude'' = [CInt 0, CInt 0, CFloat NaN] \<and>
         frame (returned out) ''distance_km'' = [CFloat (Fin 0), CFloat (Fin (6371 * pi)), CFloat NaN] \<and>
         isna (frame (returned out) ''distance_km'' ! 2) \<and> (0 :: nat) < 2"
proof -
  obtain df conf out where p:
    "process simple_lib 0 0 (unioned simple_lib example_feed 0 0 SATELLITES 200 7) = Inr (df, conf)"
    and c: "check_fires simple_lib example_feed 0 0 SATELLITES 200 7 = Inr out"
    using example_run by blast
  note r = example_returned [OF p c]
  have "isna (frame (returned out) ''distance_km'' ! 2) \<and> (0 :: nat) < 2 \<and>
        \<not> astype_str_keeps_na simple_lib"
    by (rule missing_coordinates_last [OF sorting_library_simple_lib wf_example_feed c])
       (simp_all add: r)
  then show ?thesis using c r(2,3) by blast
qed

lemma report_sorted_by_distance_example:
  "\<exists>out. check_fires simple_lib example_feed 0 0 SATELLITES 200 7 = Inr out \<and>
         frame (returned out) ''distance_km'' = [CFloat (Fin 0), CFloat (Fin (6371 * pi)), CFloat NaN] \<and>
         fl_le (Fin 0) (Fin (6371 * pi))"
proof -
  obtain df conf out where p:
    "process simple_lib 0 0 (unioned simple_lib example_feed 0 0 SATELLITES 200 7) = Inr (df, conf)"
    and c: "check_fires simple_lib example_feed 0 0 SATELLITES 200 7 = Inr out"
    using example_run by blast
  note r = example_returned [OF p c]
  have "fl_le (float_of_cell (frame (returned out) ''distance_km'' ! 0))
              (float_of_cell (frame (returned out) ''distance_km'' ! 1))"
    by (rule report_sorted_by_distance [OF sorting_library_simple_lib wf_example_feed c])
       (simp_all add: r)
  then have "fl_le (Fin 0) (Fin (6371 * pi))" unfolding r by simp
  then show ?thesis using c r(3) by blast
qed















lemma round_half_even_40:
  assumes "39.5 \<le> x" and "x < 40"
  shows "round_half_even x = 40"
proof -
  have f: "\<lfloor>x\<rfloor> = 39" using assms by (simp add: floor_eq_iff)
  show ?thesis
    using assms by (simp add: round_half_even_def Let_def f)
qed

lemma format_0f_40:
  assumes "39.5 \<le> x" and "x < 40"
  shows "format_0f (Fin x) @ ''%'' = ''40%''"
  using assms by (simp add: round_half_even_40 digit_char_def)

text \<open>
  C9. The column \<^verbatim>\<open>confidence_percent\<close> holds the display string of the numeric
  confidence (\<^verbatim>\<open>.0f\<close> and a percent sign), in the processed frame and in the returned
  report, while the filter of line 92 and the risk of line 106 read the numeric series:
  the rows of the returned report are those whose numeric confidence is at least 40, and
  their risk is \<^verbatim>\<open>classify_risk\<close> of that number. So a row whose confidence is at least
  39.5 and below 40 shows \<^verbatim>\<open>40%\<close> and is no row of the returned report.
\<close>

theorem display_string_not_used_by_filter:
  assumes "sorting_library L" and "wf_feed fetch"
      and "process L lat lon (unioned L fetch lat lon sats radius_km days) = Inr (df, conf)"
      and "check_fires L fetch lat lon sats radius_km days = Inr out"
  shows "let labels = report_labels L df conf
         in frame df ''confidence_percent'' = map (\<lambda>v. CStr (format_0f v @ ''%'')) conf \<and>
            nrows (returned out) = length labels \<and>
            set labels = {j. j < length conf \<and> fl_ge (conf ! j) (Fin 40)} \<and>
            (\<forall>p < nrows (returned out).
               frame (returned out) ''confidence_percent'' ! p
                 = CStr (format_0f (conf ! (labels ! p)) @ ''%'') \<and>
               fl_ge (conf ! (labels ! p)) (Fin 40) \<and>
               frame (returned out) ''fire_risk'' ! p = CStr (classify_risk (conf ! (labels ! p)))) \<and>
            (\<forall>i < length conf. \<forall>x. conf ! i = Fin x \<and> 39.5 \<le> x \<and> x < 40 \<longrightarrow>
               frame df ''confidence_percent'' ! i = CStr ''40%'' \<and>
               (\<forall>p < nrows (returned out). labels ! p \<noteq> i))"
proof -
  let ?labels = "report_labels L df conf"
  note shape = processed_shape [OF assms(2,3)]
  note facts = report_labels_facts [OF assms(1-3)]
  note rep = returned_report [OF assms]
  have col: "frame df ''confidence_percent'' = map (\<lambda>v. CStr (format_0f v @ ''%'')) conf"
    by (rule process_confidence_percent [OF assms(3)])
  have n: "nrows (returned out) = length ?labels" by (rule rep(1))
  have row: "frame (returned out) ''confidence_percent'' ! p
                 = CStr (format_0f (conf ! (?labels ! p)) @ ''%'') \<and>
               fl_ge (conf ! (?labels ! p)) (Fin 40) \<and>
               frame (returned out) ''fire_risk'' ! p = CStr (classify_risk (conf ! (?labels ! p)))"
    if p: "p < nrows (returned out)" for p
  proof -
    have pl: "p < length ?labels" using p n by simp
    then have "?labels ! p \<in> set ?labels" by (rule nth_mem)
    then have l: "?labels ! p < length conf" "fl_ge (conf ! (?labels ! p)) (Fin 40)"
      using facts(1) by auto
    have "frame (returned out) ''confidence_percent'' ! p
            = frame df ''confidence_percent'' ! (?labels ! p)"
      using rep(2) [of "''confidence_percent''"] pl by simp
    then have a: "frame (returned out) ''confidence_percent'' ! p
                 = CStr (format_0f (conf ! (?labels ! p)) @ ''%'')"
      unfolding col using l(1) by simp
    have b: "frame (returned out) ''fire_risk'' ! p = CStr (classify_risk (conf ! (?labels ! p)))"
      using rep(3) pl by simp
    show ?thesis using a l(2) b by (intro conjI)
  qed
  have band: "frame df ''confidence_percent'' ! i = CStr ''40%'' \<and>
               (\<forall>p < nrows (returned out). ?labels ! p \<noteq> i)"
    if i: "i < length conf" and x: "conf ! i = Fin x \<and> 39.5 \<le> x \<and> x < 40" for i x
  proof -
    have shown: "frame df ''confidence_percent'' ! i = CStr ''40%''"
      unfolding col using i format_0f_40 [of x] x by simp
    have "\<not> fl_ge (conf ! i) (Fin 40)" using x by simp
    then have "i \<notin> set ?labels" unfolding facts(1) by simp
    then have "\<forall>p < nrows (returned out). ?labels ! p \<noteq> i"
      unfolding n by (metis nth_mem)
    then show ?thesis using shown by (rule conjI [rotated])
  qed
  show ?thesis
    unfolding Let_def using col n facts(1) row band by (intro conjI allI impI) blast+
qed

theorem display_string_not_used_by_filter_witness:
  "\<exists>df conf out.
     process simple_lib 0 0 (unioned simple_lib example_feed 0 0 SATELLITES 200 7) = Inr (df, conf) \<and>
     check_fires simple_lib example_feed 0 0 SATELLITES 200 7 = Inr out \<and>
     conf = [Fin 45, Fin 90, Fin 30, Fin 39.5, Fin 60] \<and>
     frame df ''confidence_percent'' ! 3 = CStr ''40%'' \<and>
     report_labels simple_lib df conf = [4, 1, 0] \<and>
     nrows (returned out) = 3 \<and>
     frame (returned out) ''confidence_percent'' ! 0 = CStr ''60%''"
proof -
  obtain df conf out where p:
    "process simple_lib 0 0 (unioned simple_lib example_feed 0 0 SATELLITES 200 7) = Inr (df, conf)"
    and c: "check_fires simple_lib example_feed 0 0 SATELLITES 200 7 = Inr out"
    using example_run by blast
  note conf = example_conf [OF p]
  note labels = example_labels [OF p]
  note t = display_string_not_used_by_filter [OF sorting_library_simple_lib wf_example_feed p c,
              unfolded Let_def labels]
  have n: "nrows (returned out) = 3" using t by simp
  have band: "conf ! 3 = Fin 39.5 \<and> (39.5 :: real) \<le> 39.5 \<and> (39.5 :: real) < 40" "3 < length conf"
    unfolding conf by simp_all
  have shown: "frame df ''confidence_percent'' ! 3 = CStr ''40%''"
    using t band by blast
  have "frame (returned out) ''confidence_percent'' ! 0 = CStr (format_0f (conf ! ([4, 1, 0] ! 0)) @ ''%'')"
    using t n by simp
  then have first: "frame (returned out) ''confidence_percent'' ! 0 = CStr ''60%''"
    unfolding conf by (simp add: round_half_even_def digit_char_def)
  show ?thesis using p c conf shown labels n first by blast
qed

lemma set_foldl_union:
  "set (foldl (\<lambda>acc c. if c \<in> set acc then acc else acc @ [c]) acc cs) = set acc \<union> set cs"
  by (induction cs arbitrary: acc) auto

lemma set_union_columns: "set (union_columns cs) = set cs"
  by (simp add: union_columns_def set_foldl_union)

lemma set_columns_concat_frames:
  "set (columns (concat_frames dfs)) = (\<Union>d \<in> set dfs. set (columns d))"
  by (simp add: concat_frames_def set_union_columns)

lemma collect_satellite:
  "\<forall>d \<in> set (snd (collect L fetch lat lon sats radius_km days)). ''satellite'' \<in> set (columns d)"
  by (induction sats) (auto simp: Let_def case_prod_beta split: response.splits)

lemma satellite_unioned:
  assumes "snd (collect L fetch lat lon sats radius_km days) \<noteq> []"
  shows "''satellite'' \<in> set (columns (unioned L fetch lat lon sats radius_km days))"
proof -
  obtain d where d: "d \<in> set (snd (collect L fetch lat lon sats radius_km days))"
    using assms by (meson last_in_set)
  then have "''satellite'' \<in> set (columns d)" using collect_satellite by blast
  then show ?thesis
    unfolding unioned_def set_columns_concat_frames using d by blast
qed

lemma length_report_columns: "length report_columns = 10"
  by (simp add: report_columns_def)

text \<open>
  C10. When the run reaches the report, the frame it returns has every column of the
  unioned feed, the required columns and all derived columns, with the cells of the
  feed in the columns the program does not rewrite, and its index is 0 to n - 1. The
  ten columns of \<open>report_columns\<close> are what the printed rows show; they are among the
  columns of the returned frame, which has others (\<^verbatim>\<open>confidence\<close> for one).
\<close>

theorem returned_frame_keeps_all_columns:
  assumes "sorting_library L" and "wf_feed fetch"
      and "process L lat lon (unioned L fetch lat lon sats radius_km days) = Inr (df, conf)"
      and "check_fires L fetch lat lon sats radius_km days = Inr out"
      and "returned out \<noteq> empty_frame"
  shows "set (columns (returned out))
           = set (columns (unioned L fetch lat lon sats radius_km days)) \<union> set required_columns
             \<union> set derived_columns \<union> {''fire_risk''} \<and>
         index (returned out) = [0 ..< nrows (returned out)] \<and>
         (\<forall>c \<in> set (columns (unioned L fetch lat lon sats radius_km days)).
            c \<notin> set derived_columns \<longrightarrow> c \<noteq> ''fire_risk'' \<longrightarrow>
            frame (returned out) c
              = map ((!) (frame (unioned L fetch lat lon sats radius_km days) c))
                  (report_labels L df conf)) \<and>
         printed out
           = fst (collect L fetch lat lon sats radius_km days)
             @ [FireAlert (nrows (returned out)) radius_km lat lon days, TableHeader report_columns,
                TableDivider]
             @ map (\<lambda>p. TableRow (map (\<lambda>col. frame (returned out) col ! p) report_columns))
                 [0 ..< nrows (returned out)] \<and>
         length report_columns = 10 \<and>
         set report_columns \<subseteq> set (columns (returned out)) \<and>
         ''confidence'' \<in> set (columns (returned out)) \<and> ''confidence'' \<notin> set report_columns"
proof -
  let ?U = "unioned L fetch lat lon sats radius_km days"
  let ?R = "reset_index (rank L (select_reliable df conf) conf)"
  have cases: "\<not> is_empty (select_reliable df conf)"
              "snd (collect L fetch lat lon sats radius_km days) \<noteq> []"
              "returned out = ?R"
    using check_fires_returned [OF assms(4,3)] assms(5) by blast+
  have "out = \<lparr>printed = fst (collect L fetch lat lon sats radius_km days)
                      @ [FireAlert (nrows ?R) radius_km lat lon days] @ table ?R,
                  returned = ?R\<rparr>"
    by (rule check_fires_report_returned [OF cases(2) assms(3) cases(1) assms(4)])
  then have pr: "printed out = fst (collect L fetch lat lon sats radius_km days)
                      @ [FireAlert (nrows ?R) radius_km lat lon days] @ table ?R"
    by simp
  have cols: "set (columns (returned out)) = insert ''fire_risk'' (set (columns df))"
    unfolding cases(3) by (auto simp: reset_index_def columns_rank)
  have c1: "set (columns (returned out))
           = set (columns ?U) \<union> set required_columns \<union> set derived_columns \<union> {''fire_risk''}"
    unfolding cols process_columns [OF assms(3)] by simp
  have c2: "index (returned out) = [0 ..< nrows (returned out)]"
    unfolding cases(3) by (simp add: reset_index_def nrows_def)
  note rep = returned_report [OF assms(1-4)]
  have c3: "\<forall>c \<in> set (columns ?U). c \<notin> set derived_columns \<longrightarrow> c \<noteq> ''fire_risk'' \<longrightarrow>
            frame (returned out) c = map ((!) (frame ?U c)) (report_labels L df conf)"
  proof (intro ballI impI)
    fix c assume c: "c \<in> set (columns ?U)" "c \<notin> set derived_columns" "c \<noteq> ''fire_risk''"
    show "frame (returned out) c = map ((!) (frame ?U c)) (report_labels L df conf)"
      unfolding rep(2) [OF c(3)] process_other [OF assms(3) c(1,2)] ..
  qed
  have c4: "printed out
           = fst (collect L fetch lat lon sats radius_km days)
             @ [FireAlert (nrows (returned out)) radius_km lat lon days, TableHeader report_columns,
                TableDivider]
             @ map (\<lambda>p. TableRow (map (\<lambda>col. frame (returned out) col ! p) report_columns))
                 [0 ..< nrows (returned out)]"
    unfolding pr cases(3) by (simp add: table_def)
  have sat: "''satellite'' \<in> set (columns ?U)" by (rule satellite_unioned [OF cases(2)])
  have c6: "set report_columns \<subseteq> set (columns (returned out))"
    unfolding c1 using sat by (auto simp: report_columns_def required_columns_def derived_columns_def)
  have c7: "''confidence'' \<in> set (columns (returned out))"
    unfolding c1 by (simp add: required_columns_def)
  have c8: "''confidence'' \<notin> set report_columns"
    by (simp add: report_columns_def)
  show ?thesis
    using c1 c2 c3 c4 length_report_columns c6 c7 c8 by (intro conjI)
qed

theorem returned_frame_keeps_all_columns_witness:
  "\<exists>df conf out.
     process simple_lib 0 0 (unioned simple_lib example_feed 0 0 SATELLITES 200 7) = Inr (df, conf) \<and>
     check_fires simple_lib example_feed 0 0 SATELLITES 200 7 = Inr out \<and>
     returned out \<noteq> empty_frame \<and>
     index (returned out) = [0, 1, 2] \<and>
     ''confidence'' \<in> set (columns (returned out)) \<and>
     frame (returned out) ''acq_date''
       = [CStr ''2024-07-03'', CStr ''2024-07-01'', CStr ''2024-07-01'']"
proof -
  obtain df conf out where p:
    "process simple_lib 0 0 (unioned simple_lib example_feed 0 0 SATELLITES 200 7) = Inr (df, conf)"
    and c: "check_fires simple_lib example_feed 0 0 SATELLITES 200 7 = Inr out"
    using example_run by blast
  have n: "nrows (returned out) = 3" by (rule example_returned(1) [OF p c])
  have ne: "returned out \<noteq> empty_frame"
    using n by (auto simp: empty_frame_def nrows_def)
  have date: "''acq_date'' \<in> set (columns (unioned simple_lib example_feed 0 0 SATELLITES 200 7))"
    "frame (unioned simple_lib example_feed 0 0 SATELLITES 200 7) ''acq_date''
       = [CStr ''2024-07-01'', CStr ''2024-07-01'', CStr ''2024-07-02'',
          CStr ''2024-07-02'', CStr ''2024-07-03'']"
    unfolding example_unioned
    by (simp_all add: concat_frames_def column_or_nan_def union_columns_def
          example_frame_def frame_of_def set_scalar_def set_column_def)
  note t = returned_frame_keeps_all_columns [OF sorting_library_simple_lib wf_example_feed p c ne]
  have i: "index (returned out) = [0, 1, 2]"
    using t n by (simp add: upt_rec)
  have k: "''confidence'' \<in> set (columns (returned out))"
    using t by blast
  have "frame (returned out) ''acq_date''
          = map ((!) (frame (unioned simple_lib example_feed 0 0 SATELLITES 200 7) ''acq_date''))
              (report_labels simple_lib df conf)"
    using t date(1) by (simp add: derived_columns_def)
  then have d: "frame (returned out) ''acq_date''
       = [CStr ''2024-07-03'', CStr ''2024-07-01'', CStr ''2024-07-01'']"
    unfolding date(2) example_labels [OF p] by simp
  show ?thesis using p c ne i k d by blast
qed

lemma double_round_binade:
  assumes "p = 2 powr (of_int k)" and "p \<le> \<bar>x\<bar>" and "\<bar>x\<bar> < 2 * p" and "- 1022 \<le> k"
  shows "double_round x = of_int (round_half_even (x / (p / 2 ^ 52))) * (p / 2 ^ 52)"
proof -
  have pos: "0 < p" using assms(1) by simp
  then have x: "x \<noteq> 0" "0 < \<bar>x\<bar>" using assms(2) by auto
  have "2 powr (of_int (k + 1)) = 2 * p"
    unfolding assms(1) by (simp add: powr_add)
  then have "\<lfloor>log 2 \<bar>x\<bar>\<rfloor> = k"
    using assms(1-3) x(2) by (subst floor_log_eq_powr_iff) simp_all
  then have e: "max \<lfloor>log 2 \<bar>x\<bar>\<rfloor> (- 1022) = k" using assms(4) by simp
  have u: "2 powr (of_int k - 52) = p / 2 ^ 52"
    unfolding assms(1) by (simp add: powr_diff)
  show ?thesis
    using x(1) by (simp add: double_round_def Let_def e u)
qed

lemma powr_neg_60: "1 / 2 ^ 60 = (2::real) powr (of_int (- 60))"
  by (simp add: powr_minus divide_simps)

lemma powr_neg_1: "1 / 2 = (2::real) powr (of_int (- 1))"
  by (simp add: powr_minus divide_simps)

lemma powr_0: "1 = (2::real) powr (of_int 0)"
  by simp

lemma powr_6: "64 = (2::real) powr (of_int 6)"
  by simp

lemma dr_one: "double_round 1 = 1"
  using double_round_binade [OF powr_0, of 1] by (simp add: round_half_even_def)

lemma dr_111: "double_round 111 = 111"
  using double_round_binade [OF powr_6, of 111] by (simp add: round_half_even_def)

lemma dr_small: "double_round (1 / 2 ^ 60) = 1 / 2 ^ 60"
  using double_round_binade [OF powr_neg_60, of "1 / 2 ^ 60"] by (simp add: round_half_even_def)

lemma dr_small_neg: "double_round (- (1 / 2 ^ 60)) = - (1 / 2 ^ 60)"
  using double_round_binade [OF powr_neg_60, of "- (1 / 2 ^ 60)"] by (simp add: round_half_even_def)

lemma dr_below_one: "double_round (1 - 1 / 2 ^ 60) = 1"
  using double_round_binade [OF powr_neg_1, of "1 - 1 / 2 ^ 60"] by (simp add: round_half_even_def)

lemma dr_above_one: "double_round (1 + 1 / 2 ^ 60) = 1"
  using double_round_binade [OF powr_0, of "1 + 1 / 2 ^ 60"] by (simp add: round_half_even_def)

lemma dr_899: "0 < double_round 89.9"
  using double_round_binade [OF powr_6, of "89.9"] by (simp add: round_half_even_def)

lemma rhe_bounds: "\<lfloor>z\<rfloor> \<le> round_half_even z \<and> round_half_even z \<le> \<lfloor>z\<rfloor> + 1"
  by (simp add: round_half_even_def Let_def)

lemma rhe_of_int [simp]: "round_half_even (of_int n) = n"
  by (simp add: round_half_even_def Let_def)

lemma rhe_mono:
  assumes "a \<le> b"
  shows "round_half_even a \<le> round_half_even b"
proof (cases "\<lfloor>a\<rfloor> = \<lfloor>b\<rfloor>")
  case True
  have "a - of_int \<lfloor>b\<rfloor> \<le> b - of_int \<lfloor>b\<rfloor>" using assms by simp
  then show ?thesis
    unfolding round_half_even_def Let_def True by (simp split: if_splits)
next
  case False
  then have "\<lfloor>a\<rfloor> < \<lfloor>b\<rfloor>" using floor_mono [OF assms] by simp
  then have "\<lfloor>a\<rfloor> + 1 \<le> \<lfloor>b\<rfloor>" by simp
  then show ?thesis using rhe_bounds [of a] rhe_bounds [of b] by linarith
qed

lemma rhe_error: "\<bar>of_int (round_half_even z) - z\<bar> \<le> 1 / 2"
proof -
  have "of_int \<lfloor>z\<rfloor> \<le> z" "z < of_int \<lfloor>z\<rfloor> + 1" by linarith+
  then show ?thesis
    by (auto simp: round_half_even_def Let_def abs_le_iff)
qed

lemma rhe_minus: "round_half_even (- z) = - round_half_even z"
proof (cases "z \<in> \<int>")
  case True
  then obtain n where "z = of_int n" by (auto elim: Ints_cases)
  then have "- z = of_int (- n)" by simp
  then show ?thesis using \<open>z = of_int n\<close> by (metis rhe_of_int)
next
  case False
  then have nz: "z \<noteq> of_int \<lfloor>z\<rfloor>" using Ints_of_int by metis
  then have f: "\<lfloor>- z\<rfloor> = - \<lfloor>z\<rfloor> - 1"
    by (simp add: floor_minus ceiling_altdef)
  have "of_int \<lfloor>z\<rfloor> \<le> z" by linarith
  then have z: "of_int \<lfloor>z\<rfloor> < z" "z < of_int \<lfloor>z\<rfloor> + 1" using nz by linarith+
  show ?thesis
    unfolding round_half_even_def Let_def f using z by (simp split: if_splits)
qed

lemma rhe_le: "z \<le> of_int n \<Longrightarrow> round_half_even z \<le> n"
  using rhe_mono [of z "of_int n"] by simp

lemma rhe_ge: "of_int n \<le> z \<Longrightarrow> n \<le> round_half_even z"
  using rhe_mono [of "of_int n" z] by simp

lemma dr_zero [simp]: "double_round 0 = 0"
  by (simp add: double_round_def)

lemma dr_minus: "double_round (- x) = - double_round x"
  by (simp add: double_round_def Let_def rhe_minus)

lemma dr_unfold:
  assumes "x \<noteq> 0" and "e = max \<lfloor>log 2 \<bar>x\<bar>\<rfloor> (- 1022)"
  shows "double_round x = of_int (round_half_even (x / 2 powr (of_int e - 52))) * 2 powr (of_int e - 52)"
  using assms by (simp add: double_round_def Let_def)

lemma below_next_binade:
  assumes "0 < x" and "e = max \<lfloor>log 2 x\<rfloor> (- 1022)"
  shows "x < 2 powr (of_int e + 1)"
proof -
  have "log 2 x < of_int \<lfloor>log 2 x\<rfloor> + 1" by linarith
  also have "\<dots> \<le> of_int e + 1" using assms(2) by simp
  finally have "log 2 x < of_int e + 1" .
  then have "2 powr (log 2 x) < 2 powr (of_int e + 1)" by simp
  then show ?thesis using assms(1) by simp
qed

lemma dr_nonneg:
  assumes "0 \<le> x"
  shows "0 \<le> double_round x"
proof (cases "x = 0")
  case True
  then show ?thesis by simp
next
  case False
  define e where "e = max \<lfloor>log 2 \<bar>x\<bar>\<rfloor> (- 1022)"
  have "0 \<le> x / 2 powr (of_int e - 52)" using assms by simp
  then have "0 \<le> round_half_even (x / 2 powr (of_int e - 52))"
    using rhe_ge [of 0] by simp
  then show ?thesis
    unfolding dr_unfold [OF False e_def] by simp
qed

lemma dr_upper:
  assumes "0 < x" and "e = max \<lfloor>log 2 x\<rfloor> (- 1022)"
  shows "double_round x \<le> 2 powr (of_int e + 1)"
proof -
  have e: "e = max \<lfloor>log 2 \<bar>x\<bar>\<rfloor> (- 1022)" using assms by simp
  have x: "x \<noteq> 0" using assms(1) by simp
  let ?u = "(2::real) powr (of_int e - 52)"
  have "x < 2 powr (of_int e + 1)" by (rule below_next_binade [OF assms])
  also have "2 powr (of_int e + 1) = 2 ^ 53 * ?u"
    by (simp add: powr_diff powr_add)
  finally have "x / ?u < 2 ^ 53" by (simp add: divide_simps)
  then have "x / ?u \<le> of_int (2 ^ 53)" by simp
  then have "round_half_even (x / ?u) \<le> 2 ^ 53" by (rule rhe_le)
  then have "of_int (round_half_even (x / ?u)) \<le> (2 ^ 53 :: real)"
    by (metis of_int_le_iff of_int_numeral of_int_power)
  then have "of_int (round_half_even (x / ?u)) * ?u \<le> 2 ^ 53 * ?u"
    by (simp add: mult_right_mono)
  then show ?thesis
    unfolding dr_unfold [OF x e] by (simp add: powr_diff powr_add)
qed

lemma dr_lower:
  assumes "0 < x" and "e = \<lfloor>log 2 x\<rfloor>" and "- 1022 \<le> e"
  shows "2 powr (of_int e) \<le> double_round x"
proof -
  have e: "e = max \<lfloor>log 2 \<bar>x\<bar>\<rfloor> (- 1022)" using assms by simp
  have x: "x \<noteq> 0" using assms(1) by simp
  let ?u = "(2::real) powr (of_int e - 52)"
  have "of_int e \<le> log 2 x" using assms(2) by simp
  then have "2 powr (of_int e) \<le> 2 powr (log 2 x)" by simp
  then have "2 powr (of_int e) \<le> x" using assms(1) by simp
  moreover have "2 powr (of_int e) = 2 ^ 52 * ?u"
    by (simp add: powr_diff)
  ultimately have "2 ^ 52 \<le> x / ?u" by (simp add: divide_simps)
  then have "of_int (2 ^ 52) \<le> x / ?u" by simp
  then have "2 ^ 52 \<le> round_half_even (x / ?u)" by (rule rhe_ge)
  then have "(2 ^ 52 :: real) \<le> of_int (round_half_even (x / ?u))"
    by (metis of_int_le_iff of_int_numeral of_int_power)
  then have "2 ^ 52 * ?u \<le> of_int (round_half_even (x / ?u)) * ?u"
    by (simp add: mult_right_mono)
  then show ?thesis
    unfolding dr_unfold [OF x e] by (simp add: powr_diff)
qed

lemma dr_mono_pos:
  assumes "0 < a" and "a \<le> b"
  shows "double_round a \<le> double_round b"
proof -
  define ea where "ea = max \<lfloor>log 2 a\<rfloor> (- 1022)"
  define eb where "eb = max \<lfloor>log 2 b\<rfloor> (- 1022)"
  have b: "0 < b" using assms by simp
  have "log 2 a \<le> log 2 b" using assms by simp
  then have "\<lfloor>log 2 a\<rfloor> \<le> \<lfloor>log 2 b\<rfloor>" by (rule floor_mono)
  then have le: "ea \<le> eb" unfolding ea_def eb_def by simp
  have ea: "ea = max \<lfloor>log 2 \<bar>a\<bar>\<rfloor> (- 1022)" using assms(1) by (simp add: ea_def)
  have eb: "eb = max \<lfloor>log 2 \<bar>b\<bar>\<rfloor> (- 1022)" using b by (simp add: eb_def)
  show ?thesis
  proof (cases "ea = eb")
    case True
    let ?u = "(2::real) powr (of_int eb - 52)"
    have "a / ?u \<le> b / ?u" using assms(2) by (simp add: divide_right_mono)
    then have "round_half_even (a / ?u) \<le> round_half_even (b / ?u)" by (rule rhe_mono)
    then have "of_int (round_half_even (a / ?u)) * ?u \<le> of_int (round_half_even (b / ?u)) * ?u"
      by (simp add: mult_right_mono)
    then show ?thesis
      using dr_unfold [of a ea] dr_unfold [of b eb] assms(1) b ea eb True by simp
  next
    case False
    then have lt: "ea < eb" using le by simp
    then have "- 1022 < eb" unfolding ea_def by simp
    then have n: "eb = \<lfloor>log 2 b\<rfloor>" "- 1022 \<le> eb" unfolding eb_def by simp_all
    have "double_round a \<le> 2 powr (of_int ea + 1)"
      by (rule dr_upper [OF assms(1) ea_def])
    also have "\<dots> \<le> 2 powr (of_int eb)" using lt by simp
    also have "\<dots> \<le> double_round b" by (rule dr_lower [OF b n])
    finally show ?thesis .
  qed
qed

lemma dr_mono:
  assumes "a \<le> b"
  shows "double_round a \<le> double_round b"
proof -
  consider "0 < a" | "a \<le> 0" "0 \<le> b" | "b < 0" using assms by linarith
  then show ?thesis
  proof cases
    case 1
    then show ?thesis using assms by (rule dr_mono_pos)
  next
    case 2
    have "0 \<le> double_round (- a)" using 2(1) by (simp add: dr_nonneg)
    then have "double_round a \<le> 0" by (simp add: dr_minus)
    also have "0 \<le> double_round b" using 2(2) by (rule dr_nonneg)
    finally show ?thesis .
  next
    case 3
    have "double_round (- b) \<le> double_round (- a)"
      using 3 assms by (intro dr_mono_pos) simp_all
    then show ?thesis by (simp add: dr_minus)
  qed
qed

lemma dr_error:
  assumes "\<bar>x\<bar> < 2 powr (of_int k + 1)" and "- 1022 \<le> k"
  shows "\<bar>double_round x - x\<bar> \<le> 2 powr (of_int k - 53)"
proof (cases "x = 0")
  case True
  then show ?thesis by simp
next
  case False
  define e where "e = max \<lfloor>log 2 \<bar>x\<bar>\<rfloor> (- 1022)"
  let ?u = "(2::real) powr (of_int e - 52)"
  have "log 2 \<bar>x\<bar> < of_int k + 1"
    using assms(1) False by (simp add: log_less_iff)
  then have "\<lfloor>log 2 \<bar>x\<bar>\<rfloor> \<le> k" by (simp add: floor_le_iff)
  then have ek: "e \<le> k" unfolding e_def using assms(2) by simp
  have "of_int (round_half_even (x / ?u)) * ?u - x = (of_int (round_half_even (x / ?u)) - x / ?u) * ?u"
    by (simp add: left_diff_distrib)
  then have "\<bar>double_round x - x\<bar> = \<bar>of_int (round_half_even (x / ?u)) - x / ?u\<bar> * ?u"
    unfolding dr_unfold [OF False e_def] by (simp add: abs_mult)
  also have "\<dots> \<le> 1 / 2 * ?u"
    by (rule mult_right_mono [OF rhe_error]) simp
  also have "\<dots> = 2 powr (of_int e - 53)"
    by (simp add: powr_diff)
  also have "\<dots> \<le> 2 powr (of_int k - 53)" using ek by simp
  finally show ?thesis .
qed

lemma dr_abs: "double_round \<bar>x\<bar> = \<bar>double_round x\<bar>"
proof (cases "0 \<le> x")
  case True
  then show ?thesis using dr_nonneg [of x] by simp
next
  case False
  then have "0 \<le> double_round (- x)" by (simp add: dr_nonneg)
  then show ?thesis using False by (simp add: dr_minus)
qed

lemma powr_neg_5: "1 / 32 = (2::real) powr (of_int (- 5))"
  by (simp add: powr_minus divide_simps)

lemma powr_neg_8: "1 / 256 = (2::real) powr (of_int (- 8))"
  by (simp add: powr_minus divide_simps)

lemma powr_neg_11: "1 / 2048 = (2::real) powr (of_int (- 11))"
  by (simp add: powr_minus divide_simps)

lemma powr_neg_14: "1 / 16384 = (2::real) powr (of_int (- 14))"
  by (simp add: powr_minus divide_simps)

lemma dr_899_value: "double_round 89.9 = 6326150101571994 / 2 ^ 46"
  using double_round_binade [OF powr_6, of "89.9"] by (simp add: round_half_even_def)

lemma dr_2048: "double_round (1 / 2048) = 1 / 2048"
  using double_round_binade [OF powr_neg_11, of "1 / 2048"] by (simp add: round_half_even_def)

lemma dr_16384: "double_round (1 / 16384) = 1 / 16384"
  using double_round_binade [OF powr_neg_14, of "1 / 16384"] by (simp add: round_half_even_def)

lemma dr_111_2048: "double_round (111 / 2048) = 111 / 2048"
  using double_round_binade [OF powr_neg_5, of "111 / 2048"] by (simp add: round_half_even_def)

lemma dr_111_16384: "double_round (111 / 16384) = 111 / 16384"
  using double_round_binade [OF powr_neg_8, of "111 / 16384"] by (simp add: round_half_even_def)

lemma error_units:
  "(2::real) powr (of_int 1 + 1) = 4" "(2::real) powr (of_int 1 - 53) = 1 / 2 ^ 52"
  "(2::real) powr (of_int (- 6) + 1) = 1 / 32" "(2::real) powr (of_int (- 6) - 53) = 1 / 2 ^ 59"
  "(2::real) powr (of_int 0 + 1) = 2" "(2::real) powr (of_int 0 - 53) = 1 / 2 ^ 53"
  by (simp_all add: powr_minus divide_simps)

lemma sin_halving: "1 / 2 ^ n \<le> sin (pi / 2 ^ Suc n)"
proof (induction n)
  case 0
  then show ?case by simp
next
  case (Suc n)
  let ?t = "pi / 2 ^ Suc (Suc n)"
  have "(1::real) \<le> 2 ^ Suc (Suc n)" by (rule one_le_power) simp
  then have "pi * 1 \<le> pi * 2 ^ Suc (Suc n)"
    by (rule mult_left_mono) simp
  then have "?t \<le> pi"
    by (subst pos_divide_le_eq) simp_all
  moreover have "0 \<le> ?t" by simp
  ultimately have t: "0 \<le> ?t" "?t \<le> pi" by simp_all
  have dbl: "pi / 2 ^ Suc n = 2 * ?t" by simp
  have s: "0 \<le> sin ?t" using t by (rule sin_ge_zero)
  have "sin (2 * ?t) = 2 * sin ?t * cos ?t" by (rule sin_double)
  also have "\<dots> \<le> 2 * sin ?t * 1"
    by (rule mult_left_mono) (use s in simp_all)
  finally have "sin (pi / 2 ^ Suc n) \<le> 2 * sin ?t" unfolding dbl by simp
  then have "1 / 2 ^ n \<le> 2 * sin ?t" using Suc.IH by linarith
  moreover have "a \<le> 2 * b \<Longrightarrow> a / 2 \<le> b" for a b :: real by linarith
  ultimately have "1 / 2 ^ n / 2 \<le> sin ?t" by blast
  moreover have "1 / 2 ^ n / 2 = 1 / (2::real) ^ Suc n" by simp
  ultimately show ?case by simp
qed

lemma rounding_units:
  "(1::real) / 2 ^ 52 \<le> 1 / 1000000000000000"
  "(1::real) / 2 ^ 59 \<le> 1 / 1000000000000000"
  "(1::real) / 2 ^ 53 \<le> 1 / 1000000000000000"
  "(6326150101571994::real) / 2 ^ 46 \<le> (8991 / 100)"
  "(89.9::real) \<le> 6326150101571994 / 2 ^ 46"
  by simp_all

lemma degree_factor:
  "0 < double_round (double_round pi / 180)"
  "double_round (double_round pi / 180) \<le> pi / 180 + 1 / 100000000000000"
proof -
  let ?P = "double_round pi"
  let ?Q = "double_round (?P / 180)"
  have "\<bar>pi\<bar> < 2 powr (of_int 1 + 1)"
    unfolding error_units using pi_less_4 pi_gt_zero by simp
  then have "\<bar>?P - pi\<bar> \<le> 2 powr (of_int 1 - 53)" by (rule dr_error) simp
  then have P: "\<bar>?P - pi\<bar> \<le> 1 / 2 ^ 52" unfolding error_units .
  have Pb: "1 \<le> ?P" "?P \<le> 5"
    using P rounding_units(1) pi_ge_two pi_less_4 by linarith+
  have "\<bar>?P / 180\<bar> < 1 / 32" using Pb by linarith
  then have "\<bar>?P / 180\<bar> < 2 powr (of_int (- 6) + 1)" unfolding error_units .
  then have "\<bar>?Q - ?P / 180\<bar> \<le> 2 powr (of_int (- 6) - 53)" by (rule dr_error) simp
  then have Q: "\<bar>?Q - ?P / 180\<bar> \<le> 1 / 2 ^ 59" unfolding error_units .
  show "0 < ?Q" using Q rounding_units(2) Pb by linarith
  show "?Q \<le> pi / 180 + 1 / 100000000000000"
    using Q P rounding_units(1,2) by linarith
qed

lemma radians_fp_bound:
  assumes "\<bar>lat\<bar> < double_round 89.9"
  shows "\<bar>radians_fp lat\<bar> \<le> pi / 2 - pi / 4096"
proof -
  let ?Q = "double_round (double_round pi / 180)"
  note Q = degree_factor
  have lat: "\<bar>lat\<bar> \<le> (8991 / 100)"
    using assms rounding_units(4) unfolding dr_899_value by linarith
  have "\<bar>lat * ?Q\<bar> = \<bar>lat\<bar> * ?Q" using Q(1) by (simp add: abs_mult)
  also have "\<dots> \<le> (8991 / 100) * ?Q" using lat Q(1) by (intro mult_right_mono) simp_all
  finally have z: "\<bar>lat * ?Q\<bar> \<le> (8991 / 100) * ?Q" .
  have "\<bar>lat * ?Q\<bar> < 2" using z Q(2) pi_less_4 by linarith
  then have "\<bar>lat * ?Q\<bar> < 2 powr (of_int 0 + 1)" unfolding error_units .
  then have "\<bar>double_round (lat * ?Q) - lat * ?Q\<bar> \<le> 2 powr (of_int 0 - 53)"
    by (rule dr_error) simp
  then have "\<bar>double_round (lat * ?Q) - lat * ?Q\<bar> \<le> 1 / 2 ^ 53" unfolding error_units .
  then show ?thesis
    unfolding radians_fp_def using z Q(2) rounding_units(3) pi_ge_two by linarith
qed

lemma cos_near_pole:
  assumes "\<bar>y\<bar> \<le> pi / 2 - pi / 4096"
  shows "1 / 2048 \<le> cos y"
proof -
  have "1 / 2 ^ 11 \<le> sin (pi / 2 ^ Suc 11)" by (rule sin_halving)
  then have "1 / 2048 \<le> sin (pi / 4096)" by simp
  also have "\<dots> = cos (pi / 2 - pi / 4096)"
    using sin_cos_eq [of "pi / 4096 :: real"] by simp
  also have "\<dots> \<le> cos \<bar>y\<bar>"
    by (rule cos_monotone_0_pi_le) (use assms pi_gt_zero in simp_all)
  finally show ?thesis by simp
qed

lemma cos_lat_fp_lower: "1 / 16384 \<le> cos_lat_fp lat"
proof (cases "\<bar>lat\<bar> < double_round 89.9")
  case True
  have "1 / 2048 \<le> cos (radians_fp lat)"
    by (rule cos_near_pole [OF radians_fp_bound [OF True]])
  then have "double_round (1 / 2048) \<le> double_round (cos (radians_fp lat))" by (rule dr_mono)
  then show ?thesis using True by (simp add: cos_lat_fp_def dr_2048)
next
  case False
  have "double_round (1 / 16384) \<le> double_round 0.0001" by (rule dr_mono) simp
  then show ?thesis using False by (simp add: cos_lat_fp_def dr_16384)
qed

lemma divisor_positive: "111 / 16384 \<le> double_round (111 * cos_lat_fp lat)"
proof -
  have "111 / 16384 \<le> 111 * cos_lat_fp lat" using cos_lat_fp_lower [of lat] by simp
  then have "double_round (111 / 16384) \<le> double_round (111 * cos_lat_fp lat)" by (rule dr_mono)
  then show ?thesis by (simp add: dr_111_16384)
qed

lemma guard_at_literal:
  assumes "double_round lat = lat"
  shows "\<bar>lat\<bar> < double_round 89.9 \<longleftrightarrow> \<bar>lat\<bar> < 89.9"
proof
  assume a: "\<bar>lat\<bar> < double_round 89.9"
  show "\<bar>lat\<bar> < 89.9"
  proof (rule ccontr)
    assume "\<not> \<bar>lat\<bar> < 89.9"
    then have "double_round 89.9 \<le> double_round \<bar>lat\<bar>" by (intro dr_mono) simp
    then show False using a by (simp add: dr_abs assms)
  qed
next
  assume "\<bar>lat\<bar> < 89.9"
  then show "\<bar>lat\<bar> < double_round 89.9"
    unfolding dr_899_value using rounding_units(5) by linarith
qed

lemma half_widths_nonneg:
  assumes "0 < radius_km"
  shows "0 \<le> delta_lat_fp radius_km" and "0 \<le> delta_lon_fp lat radius_km"
proof -
  show "0 \<le> delta_lat_fp radius_km"
    unfolding delta_lat_fp_def using assms by (intro dr_nonneg) simp
  have "0 < double_round (111 * cos_lat_fp lat)"
    using divisor_positive [of lat] by simp
  then show "0 \<le> delta_lon_fp lat radius_km"
    unfolding delta_lon_fp_def using assms by (intro dr_nonneg) simp
qed

text \<open>
  C8, as amended. \<^verbatim>\<open>generate_bbox\<close> computes in double precision: with a latitude that
  is a double, \<^verbatim>\<open>cos_lat\<close> is the double 0.0001 when the latitude is at least 89.9 degrees
  in absolute value and the rounded cosine of the latitude in radians otherwise; the
  half-widths are \<^verbatim>\<open>radius / 111\<close> and \<^verbatim>\<open>radius / (111 * cos_lat)\<close>, each operation
  rounded. The divisor \<^verbatim>\<open>111 * cos_lat\<close> is positive, so nothing is raised, and for a
  positive radius the returned string holds a box whose minimum is not above its maximum
  in both directions. That the minimum is below the maximum fails, as
  \<open>bbox_rounding_counterexample\<close> below shows.
\<close>

theorem bbox_double_arithmetic:
  assumes "0 < radius_km" and "double_round lat = lat"
  shows "(89.9 \<le> \<bar>lat\<bar> \<longrightarrow> cos_lat_fp lat = double_round 0.0001) \<and>
         (\<bar>lat\<bar> < 89.9 \<longrightarrow> cos_lat_fp lat = double_round (cos (radians_fp lat))) \<and>
         0 < double_round (111 * cos_lat_fp lat) \<and>
         (case bbox_bounds_fp lat lon radius_km of
            (a, b, c, d) \<Rightarrow>
              generate_bbox L lat lon radius_km
                = float_str L a @ '','' @ float_str L b @ '','' @ float_str L c @ '','' @ float_str L d \<and>
              a = double_round (lon - double_round (radius_km / double_round (111 * cos_lat_fp lat))) \<and>
              b = double_round (lat - double_round (radius_km / 111)) \<and>
              c = double_round (lon + double_round (radius_km / double_round (111 * cos_lat_fp lat))) \<and>
              d = double_round (lat + double_round (radius_km / 111)) \<and>
              a \<le> c \<and> b \<le> d)"
proof -
  note g = guard_at_literal [OF assms(2)]
  have pole: "89.9 \<le> \<bar>lat\<bar> \<longrightarrow> cos_lat_fp lat = double_round 0.0001"
    using g by (simp add: cos_lat_fp_def)
  have inner: "\<bar>lat\<bar> < 89.9 \<longrightarrow> cos_lat_fp lat = double_round (cos (radians_fp lat))"
    using g by (simp add: cos_lat_fp_def)
  have div: "0 < double_round (111 * cos_lat_fp lat)"
    using divisor_positive [of lat] by simp
  note w = half_widths_nonneg [OF assms(1)]
  have lon: "double_round (lon - delta_lon_fp lat radius_km)
               \<le> double_round (lon + delta_lon_fp lat radius_km)"
    by (rule dr_mono) (use w(2) [of lat] in simp)
  have lat: "double_round (lat - delta_lat_fp radius_km)
               \<le> double_round (lat + delta_lat_fp radius_km)"
    by (rule dr_mono) (use w(1) in simp)
  have box: "case bbox_bounds_fp lat lon radius_km of
            (a, b, c, d) \<Rightarrow>
              generate_bbox L lat lon radius_km
                = float_str L a @ '','' @ float_str L b @ '','' @ float_str L c @ '','' @ float_str L d \<and>
              a = double_round (lon - double_round (radius_km / double_round (111 * cos_lat_fp lat))) \<and>
              b = double_round (lat - double_round (radius_km / 111)) \<and>
              c = double_round (lon + double_round (radius_km / double_round (111 * cos_lat_fp lat))) \<and>
              d = double_round (lat + double_round (radius_km / 111)) \<and>
              a \<le> c \<and> b \<le> d"
    using lon lat
    by (simp add: generate_bbox_def bbox_bounds_fp_def delta_lon_fp_def delta_lat_fp_def)
  show ?thesis using pole inner div box by (intro conjI)
qed

theorem bbox_double_arithmetic_witness:
  "(0 :: real) < 200 \<and> double_round 0 = 0 \<and>
   cos_lat_fp 0 = double_round (cos (radians_fp 0)) \<and>
   0 < double_round (111 * cos_lat_fp 0) \<and>
   generate_bbox simple_lib 0 0 200
     = float_str simple_lib (fst (bbox_bounds_fp 0 0 200)) @ '','' @
       float_str simple_lib (fst (snd (bbox_bounds_fp 0 0 200))) @ '','' @
       float_str simple_lib (fst (snd (snd (bbox_bounds_fp 0 0 200)))) @ '','' @
       float_str simple_lib (snd (snd (snd (bbox_bounds_fp 0 0 200)))) \<and>
   fst (bbox_bounds_fp 0 0 200) \<le> fst (snd (snd (bbox_bounds_fp 0 0 200))) \<and>
   fst (snd (bbox_bounds_fp 0 0 200)) \<le> snd (snd (snd (bbox_bounds_fp 0 0 200)))"
proof -
  have h: "(0 :: real) < 200" "double_round 0 = 0" by simp_all
  have a: "\<bar>0 :: real\<bar> < 89.9" by simp
  note t = bbox_double_arithmetic [where radius_km = 200 and lat = 0 and lon = 0 and L = simple_lib,
             OF h, unfolded case_prod_beta]
  have c: "cos_lat_fp 0 = double_round (cos (radians_fp 0))" using t a by blast
  show ?thesis using h c t by blast
qed

text \<open>
  The box of a positive radius that rounding closes: around longitude 1 and latitude 0,
  with the radius \<^verbatim>\<open>111 * 2 ** -60\<close> km, the half-width \<^verbatim>\<open>2 ** -60\<close> is below half the
  distance from 1 to its neighbouring doubles, so both longitudes of the box are 1.
\<close>

theorem bbox_rounding_counterexample:
  "(0 :: real) < 111 / 2 ^ 60 \<and>
   bbox_bounds_fp 0 1 (111 / 2 ^ 60) = (1, - (1 / 2 ^ 60), 1, 1 / 2 ^ 60)"
proof -
  have r: "radians_fp 0 = 0" by (simp add: radians_fp_def double_round_def)
  have c: "cos_lat_fp 0 = 1" using dr_899 by (simp add: cos_lat_fp_def r dr_one)
  have dlat: "delta_lat_fp (111 / 2 ^ 60) = 1 / 2 ^ 60"
    using dr_small by (simp add: delta_lat_fp_def)
  have dlon: "delta_lon_fp 0 (111 / 2 ^ 60) = 1 / 2 ^ 60"
    using dr_small by (simp add: delta_lon_fp_def c dr_111)
  show ?thesis
    unfolding bbox_bounds_fp_def dlat dlon
    using dr_below_one dr_above_one dr_small dr_small_neg by simp
qed

end
